theory Spec2Isabelle
  imports Main "HOL-Library.Product_Lexorder" "HOL-Library.List_Lexorder" "HOL-Library.Char_ord"
    "HOL-Library.Option_ord"
begin

section \<open>Instants and ranges\<close>

text \<open>
  A JavaScript \<^verbatim>\<open>Date\<close> is modelled by its \<^verbatim>\<open>getTime()\<close> value: an integer number of
  milliseconds since the epoch. Clock boundaries (minute, hour, day) are taken in a local
  time zone without offset and without daylight saving, so that they are multiples of
  60000, 3600000 and 86400000 milliseconds.

  \<^verbatim>\<open>TimelineWindow\<close> (vis-timeline) and \<^verbatim>\<open>DateRange\<close> are both \<^verbatim>\<open>{start: Date, end: Date}\<close>.
\<close>

type_synonym instant = int

record DateRange =
  range_start :: instant
  range_end :: instant

type_synonym TimelineWindow = DateRange

definition TIMELINE_FRESHNESS_TOLERANCE_SECONDS :: int where
  "TIMELINE_FRESHNESS_TOLERANCE_SECONDS = 30"

definition TIMELINE_RECORDING_SEGMENT_CONSECUTIVE_TOLERANCE_SECONDS :: int where
  "TIMELINE_RECORDING_SEGMENT_CONSECUTIVE_TOLERANCE_SECONDS = 60"

text \<open>date-fns \<^verbatim>\<open>add(d, {seconds: n})\<close> and \<^verbatim>\<open>sub(d, {seconds: n})\<close>.\<close>

definition add_seconds :: "instant \<Rightarrow> int \<Rightarrow> instant" where
  "add_seconds d n = d + n * 1000"

definition sub_seconds :: "instant \<Rightarrow> int \<Rightarrow> instant" where
  "sub_seconds d n = d - n * 1000"

text \<open>date-fns clock boundaries.\<close>

definition startOfHour :: "instant \<Rightarrow> instant" where
  "startOfHour d = d - d mod 3600000"

definition endOfHour :: "instant \<Rightarrow> instant" where
  "endOfHour d = startOfHour d + 3599999"

definition startOfDay :: "instant \<Rightarrow> instant" where
  "startOfDay d = d - d mod 86400000"

definition endOfDay :: "instant \<Rightarrow> instant" where
  "endOfDay d = startOfDay d + 86399999"

definition endOfMinute :: "instant \<Rightarrow> instant" where
  "endOfMinute d = d - d mod 60000 + 59999"

section \<open>WindowQuantizer (camera/util)\<close>

text \<open>
  Modelled from the spec: \<^verbatim>\<open>capEndDate\<close> of \<^verbatim>\<open>camera/util\<close>, whose source is absent (its
  tests are in \<^verbatim>\<open>tests/camera-manager/utils.test.ts\<close>). The spec: returns \<^verbatim>\<open>min(date, now)\<close>.
  The current instant \<^verbatim>\<open>new Date()\<close> is the first argument.
\<close>

definition capEndDate :: "instant \<Rightarrow> instant \<Rightarrow> instant" where
  "capEndDate now d = (if now < d then now else d)"

text \<open>
  Modelled from the spec: \<^verbatim>\<open>convertRangeToCacheFriendlyTimes\<close> of \<^verbatim>\<open>camera/util\<close>, whose
  source is absent (its tests are in \<^verbatim>\<open>tests/camera-manager/utils.test.ts\<close>). The spec: a
  range within one clock hour is snapped to that clock hour (\<^verbatim>\<open>HH:00:00.000\<close> to
  \<^verbatim>\<open>HH:59:59.999\<close>); any other range is snapped to the clock days of its start and of its
  end. With \<^verbatim>\<open>endCap\<close>, a snapped end beyond the current instant is replaced. The
  replacement is fixed by the test \<^verbatim>\<open>should cap end date\<close> and by the spec's example: with
  the clock at 14:25:00 the end becomes 14:25:59.999, the last millisecond of the current
  minute.
\<close>

definition convertRangeToCacheFriendlyTimes :: "instant \<Rightarrow> DateRange \<Rightarrow> bool \<Rightarrow> DateRange" where
  "convertRangeToCacheFriendlyTimes now rng endCap =
     (let sameHour = (startOfHour (range_start rng) = startOfHour (range_end rng));
          cacheableStart =
            (if sameHour then startOfHour (range_start rng) else startOfDay (range_start rng));
          cacheableEnd =
            (if sameHour then endOfHour (range_start rng) else endOfDay (range_end rng))
      in \<lparr>range_start = cacheableStart,
          range_end = (if endCap \<and> now < cacheableEnd then endOfMinute now else cacheableEnd)\<rparr>)"

text \<open>The instants of the tests: 2023-04-29 at the given hour, minute, second, millisecond.\<close>

definition test_day :: "int \<Rightarrow> int \<Rightarrow> int \<Rightarrow> int \<Rightarrow> instant" where
  "test_day h m s ms = 1682726400000 + h * 3600000 + m * 60000 + s * 1000 + ms"

section \<open>RangeCoverageTracker and ExpiringRangeCoverageTracker (camera/range)\<close>

text \<open>
  Modelled from the spec: the containment test of \<^verbatim>\<open>hasCoverage\<close> in \<^verbatim>\<open>camera/range\<close>, whose
  source is absent. The spec: a stored interval \<^verbatim>\<open>[s, e]\<close> covers a range when
  \<^verbatim>\<open>s <= range.start\<close> and \<^verbatim>\<open>e >= range.end\<close>.
\<close>

definition range_covers :: "'a DateRange_scheme \<Rightarrow> DateRange \<Rightarrow> bool" where
  "range_covers stored r =
     (range_start stored \<le> range_start r \<and> range_end r \<le> range_end stored)"

text \<open>
  Modelled from the spec: class \<^verbatim>\<open>MemoryRangeSet\<close> of \<^verbatim>\<open>camera/range\<close>, whose source is absent.
  The spec (RangeCoverageTracker): the stored intervals are disjoint and sorted ascending;
  \<^verbatim>\<open>add\<close> inserts a range and merges it with every stored interval that overlaps or
  touches it, transitively; \<^verbatim>\<open>hasCoverage\<close> holds when one stored interval covers the range;
  \<^verbatim>\<open>clear\<close> removes all intervals.
\<close>

type_synonym MemoryRangeSet = "DateRange list"

fun MemoryRangeSet_add :: "DateRange \<Rightarrow> MemoryRangeSet \<Rightarrow> MemoryRangeSet" where
  "MemoryRangeSet_add r [] = [r]"
| "MemoryRangeSet_add r (x # xs) =
     (if range_end r < range_start x then r # x # xs
      else if range_end x < range_start r then x # MemoryRangeSet_add r xs
      else MemoryRangeSet_add
             \<lparr>range_start = min (range_start r) (range_start x),
              range_end = max (range_end r) (range_end x)\<rparr> xs)"

definition MemoryRangeSet_hasCoverage :: "MemoryRangeSet \<Rightarrow> DateRange \<Rightarrow> bool" where
  "MemoryRangeSet_hasCoverage rs r = list_ex (\<lambda>stored. range_covers stored r) rs"

definition MemoryRangeSet_clear :: "MemoryRangeSet \<Rightarrow> MemoryRangeSet" where
  "MemoryRangeSet_clear rs = []"

text \<open>
  Modelled from the spec: class \<^verbatim>\<open>ExpiringMemoryRangeSet\<close> of \<^verbatim>\<open>camera/range\<close>, whose source
  is absent. The spec (ExpiringRangeCoverageTracker): each stored interval carries an expiry
  instant; an entry with \<^verbatim>\<open>expiresAt <= now\<close> is logically absent; every \<^verbatim>\<open>hasCoverage\<close> and
  \<^verbatim>\<open>add\<close> first prunes such entries (so \<^verbatim>\<open>hasCoverage\<close> returns the pruned set with its
  answer); merged entries take the later expiry.
\<close>

record ExpiringDateRange = DateRange +
  expires :: instant

type_synonym ExpiringMemoryRangeSet = "ExpiringDateRange list"

definition expireOldRanges :: "instant \<Rightarrow> ExpiringMemoryRangeSet \<Rightarrow> ExpiringMemoryRangeSet" where
  "expireOldRanges now rs = filter (\<lambda>stored. now < expires stored) rs"

fun expiring_insert :: "ExpiringDateRange \<Rightarrow> ExpiringMemoryRangeSet \<Rightarrow> ExpiringMemoryRangeSet" where
  "expiring_insert r [] = [r]"
| "expiring_insert r (x # xs) =
     (if range_end r < range_start x then r # x # xs
      else if range_end x < range_start r then x # expiring_insert r xs
      else expiring_insert
             \<lparr>range_start = min (range_start r) (range_start x),
              range_end = max (range_end r) (range_end x),
              expires = max (expires r) (expires x)\<rparr> xs)"

definition ExpiringMemoryRangeSet_add ::
  "instant \<Rightarrow> ExpiringDateRange \<Rightarrow> ExpiringMemoryRangeSet \<Rightarrow> ExpiringMemoryRangeSet" where
  "ExpiringMemoryRangeSet_add now r rs = expiring_insert r (expireOldRanges now rs)"

definition ExpiringMemoryRangeSet_hasCoverage ::
  "instant \<Rightarrow> ExpiringMemoryRangeSet \<Rightarrow> DateRange \<Rightarrow> bool \<times> ExpiringMemoryRangeSet" where
  "ExpiringMemoryRangeSet_hasCoverage now rs r =
     (let live = expireOldRanges now rs
      in (list_ex (\<lambda>stored. range_covers stored r) live, live))"

definition ExpiringMemoryRangeSet_clear :: "ExpiringMemoryRangeSet \<Rightarrow> ExpiringMemoryRangeSet" where
  "ExpiringMemoryRangeSet_clear rs = []"

section \<open>Media records and timeline items\<close>

text \<open>
  \<^verbatim>\<open>ViewMedia\<close> as \<^verbatim>\<open>_refreshEvents\<close> reads it: \<^verbatim>\<open>getID(cameraConfig)\<close> (a string or null),
  \<^verbatim>\<open>getStartTime()\<close> and \<^verbatim>\<open>getEndTime()\<close> (a Date or null) and \<^verbatim>\<open>getCameraID()\<close>.
\<close>

record ViewMedia =
  media_id :: "string option"
  media_startTime :: "instant option"
  media_endTime :: "instant option"
  media_cameraID :: string

datatype item_type = TypePoint | TypeRange | TypeBackground

text \<open>
  \<^verbatim>\<open>FrigateCardTimelineItem\<close> has an optional \<^verbatim>\<open>end\<close>; \<^verbatim>\<open>FrigateCardTimelineItemWithEnd\<close>
  (\<^verbatim>\<open>ModifyInterface<FrigateCardTimelineItem, {end: number}>\<close>) is the same interface with
  a mandatory \<^verbatim>\<open>end\<close>. The type of the \<^verbatim>\<open>end\<close> field is the parameter of the record.
\<close>

record 'e TimelineItemOf =
  item_id :: string
  item_group :: string
  item_content :: string
  item_start :: instant
  item_end :: 'e
  item_type :: item_type
  item_media :: "ViewMedia option"

type_synonym FrigateCardTimelineItem = "instant option TimelineItemOf"

type_synonym FrigateCardTimelineItemWithEnd = "instant TimelineItemOf"

text \<open>The cast \<^verbatim>\<open>as FrigateCardTimelineItemWithEnd[]\<close> after the filter \<^verbatim>\<open>item.end !== undefined\<close>.\<close>

definition as_with_end :: "FrigateCardTimelineItem \<Rightarrow> FrigateCardTimelineItemWithEnd option" where
  "as_with_end i =
     (case item_end i of
        None \<Rightarrow> None
      | Some e \<Rightarrow>
          Some \<lparr>item_id = item_id i, item_group = item_group i, item_content = item_content i,
                item_start = item_start i, item_end = e, item_type = item_type i,
                item_media = item_media i\<rparr>)"

definition of_with_end :: "FrigateCardTimelineItemWithEnd \<Rightarrow> FrigateCardTimelineItem" where
  "of_with_end i =
     \<lparr>item_id = item_id i, item_group = item_group i, item_content = item_content i,
      item_start = item_start i, item_end = Some (item_end i), item_type = item_type i,
      item_media = item_media i\<rparr>"

section \<open>The item collection (vis-data DataSet)\<close>

text \<open>
  \<^verbatim>\<open>DataSet\<close> is the vis-data library's class, not code of this repository. It keeps at most
  one item per id, in insertion order. As the library documents them: \<^verbatim>\<open>get({filter})\<close>
  returns the items that satisfy the filter; \<^verbatim>\<open>remove(items)\<close> removes the items with the
  ids of the given items; \<^verbatim>\<open>add(items)\<close> of an array first throws, adding nothing, when an id of
  the array is already stored; it then appends the items one by one and throws at an item
  whose id is present by then (a second item of the array with the same id; the items
  before it stay added);
  \<^verbatim>\<open>update(item)\<close> merges the given fields into the item with that id (fields that the
  argument does not carry keep their value) and adds the item when the id is new.
\<close>

datatype error = FetchError | DuplicateIdInArrayError | DuplicateItemError string

type_synonym DataSet = "FrigateCardTimelineItem list"

definition DataSet_get :: "(FrigateCardTimelineItem \<Rightarrow> bool) \<Rightarrow> DataSet \<Rightarrow> FrigateCardTimelineItem list" where
  "DataSet_get p ds = filter p ds"

definition DataSet_remove :: "FrigateCardTimelineItem list \<Rightarrow> DataSet \<Rightarrow> DataSet" where
  "DataSet_remove items ds = filter (\<lambda>i. item_id i \<notin> set (map item_id items)) ds"

fun DataSet_addItems :: "FrigateCardTimelineItem list \<Rightarrow> DataSet \<Rightarrow> error option \<times> DataSet" where
  "DataSet_addItems [] ds = (None, ds)"
| "DataSet_addItems (x # xs) ds =
     (if item_id x \<in> set (map item_id ds) then (Some (DuplicateItemError (item_id x)), ds)
      else DataSet_addItems xs (ds @ [x]))"

definition DataSet_add :: "FrigateCardTimelineItem list \<Rightarrow> DataSet \<Rightarrow> error option \<times> DataSet" where
  "DataSet_add items ds =
     (if list_ex (\<lambda>x. item_id x \<in> set (map item_id ds)) items
      then (Some DuplicateIdInArrayError, ds)
      else DataSet_addItems items ds)"

definition merge_item :: "FrigateCardTimelineItem \<Rightarrow> FrigateCardTimelineItem \<Rightarrow> FrigateCardTimelineItem" where
  "merge_item old new =
     \<lparr>item_id = item_id new, item_group = item_group new, item_content = item_content new,
      item_start = item_start new,
      item_end = (case item_end new of None \<Rightarrow> item_end old | Some e \<Rightarrow> Some e),
      item_type = item_type new,
      item_media = (case item_media new of None \<Rightarrow> item_media old | Some m \<Rightarrow> Some m)\<rparr>"

fun DataSet_update :: "FrigateCardTimelineItem \<Rightarrow> DataSet \<Rightarrow> DataSet" where
  "DataSet_update u [] = [u]"
| "DataSet_update u (x # xs) =
     (if item_id x = item_id u then merge_item x u # xs else x # DataSet_update u xs)"

definition DataSet_lookup :: "string \<Rightarrow> DataSet \<Rightarrow> FrigateCardTimelineItem option" where
  "DataSet_lookup k ds = find (\<lambda>i. item_id i = k) ds"

section \<open>SegmentCompressor (camera/range)\<close>

text \<open>
  Modelled from the spec: \<^verbatim>\<open>compressRanges\<close> of \<^verbatim>\<open>camera/range\<close>, whose source is absent. The
  spec (SegmentCompressor): sort the inputs by \<^verbatim>\<open>start\<close> ascending, ties by \<^verbatim>\<open>end\<close>
  ascending; walk them with a current block; an item with
  \<^verbatim>\<open>item.start - currentBlock.end <= toleranceSeconds\<close> extends the block's end to the
  maximum of both ends, any other item closes the block and starts a new one. A block
  keeps the other fields of the item that started it. The comparison is taken as the spec
  writes it; no result below depends on the unit of the tolerance.
\<close>

fun compress_walk ::
  "int \<Rightarrow> FrigateCardTimelineItemWithEnd \<Rightarrow> FrigateCardTimelineItemWithEnd list
    \<Rightarrow> FrigateCardTimelineItemWithEnd list" where
  "compress_walk tol cur [] = [cur]"
| "compress_walk tol cur (x # xs) =
     (if item_start x - item_end cur \<le> tol
      then compress_walk tol (cur\<lparr>item_end := max (item_end cur) (item_end x)\<rparr>) xs
      else cur # compress_walk tol x xs)"

definition compressRanges ::
  "FrigateCardTimelineItemWithEnd list \<Rightarrow> int \<Rightarrow> FrigateCardTimelineItemWithEnd list" where
  "compressRanges ranges toleranceSeconds =
     (case sort_key (\<lambda>i. (item_start i, item_end i)) ranges of
        [] \<Rightarrow> []
      | x # xs \<Rightarrow> compress_walk toleranceSeconds x xs)"

section \<open>TimelineDataSource (utils/timeline-source.ts)\<close>

datatype ClipsOrSnapshotsOrAll = MediaClips | MediaSnapshots | MediaAll

record RecordingSegment =
  segment_id :: string
  start_time :: int
  end_time :: int

text \<open>
  The fields of the class. \<^verbatim>\<open>_cameraManager\<close> is the external provider; its answers are part
  of the environment below.
\<close>

record TimelineDataSource =
  dataset :: DataSet
  recordingRanges :: MemoryRangeSet
  eventRanges :: ExpiringMemoryRangeSet
  cameraIDs :: "string list"
  mediaType :: ClipsOrSnapshotsOrAll

text \<open>
  What \<^verbatim>\<open>generateDefaultEventQueries\<close> and \<^verbatim>\<open>generateDefaultRecordingSegmentsQueries\<close> are
  given: the camera ids, the window and the media filters.
\<close>

record EventQuery =
  eq_cameraIDs :: "string list"
  eq_start :: instant
  eq_end :: instant
  eq_hasClip :: bool
  eq_hasSnapshot :: bool

record RecordingSegmentsQuery =
  rq_cameraIDs :: "string list"
  rq_start :: instant
  rq_end :: instant

text \<open>
  The environment of one call of \<^verbatim>\<open>refresh\<close>: the clock while the call runs up to its
  awaits (\<^verbatim>\<open>now_called\<close>), the clock when \<^verbatim>\<open>_refreshEvents\<close> resumes after its await
  (\<^verbatim>\<open>now_events_resumed\<close>), the provider's answer to each query (\<^verbatim>\<open>Inl\<close> when the call
  throws; \<^verbatim>\<open>executeMediaQuery\<close> may answer null; \<^verbatim>\<open>getRecordingSegments\<close> answers a map
  from queries to results, kept as the list of its entries \<^verbatim>\<open>(query.cameraID,
  result.segments)\<close> in iteration order), and which of the two awaited answers arrives
  first.
\<close>

record Environment =
  now_called :: instant
  now_events_resumed :: instant
  executeMediaQuery :: "EventQuery \<Rightarrow> error + ViewMedia list option"
  getRecordingSegments :: "RecordingSegmentsQuery \<Rightarrow> error + (string \<times> RecordingSegment list) list"
  events_settle_first :: bool

datatype promise = Resolved | Rejected error

definition clearEvents :: "TimelineDataSource \<Rightarrow> TimelineDataSource" where
  "clearEvents s =
     s\<lparr>eventRanges := ExpiringMemoryRangeSet_clear (eventRanges s),
       dataset := DataSet_remove
         (DataSet_get (\<lambda>item. item_type item \<noteq> TypeBackground) (dataset s)) (dataset s)\<rparr>"

definition rewriteEvent :: "string \<Rightarrow> TimelineDataSource \<Rightarrow> error option \<times> TimelineDataSource" where
  "rewriteEvent k s =
     (case DataSet_lookup k (dataset s) of
        None \<Rightarrow> (None, s)
      | Some item \<Rightarrow>
          (let (e, ds) = DataSet_add [item] (DataSet_remove [item] (dataset s))
           in (e, s\<lparr>dataset := ds\<rparr>)))"

definition getCacheFriendlyEventWindow :: "instant \<Rightarrow> TimelineWindow \<Rightarrow> TimelineWindow" where
  "getCacheFriendlyEventWindow now window = convertRangeToCacheFriendlyTimes now window True"

definition getTimelineEventQueries :: "TimelineDataSource \<Rightarrow> TimelineWindow \<Rightarrow> EventQuery" where
  "getTimelineEventQueries s window =
     \<lparr>eq_cameraIDs = cameraIDs s, eq_start = range_start window, eq_end = range_end window,
      eq_hasClip = (mediaType s = MediaClips), eq_hasSnapshot = (mediaType s = MediaSnapshots)\<rparr>"

subsection \<open>The events leg\<close>

text \<open>
  \<^verbatim>\<open>_refreshEvents\<close> up to its await: the coverage check, which returns at once when the
  range is covered, and otherwise the cache friendly window of the query that is issued.
\<close>

definition refreshEvents_start ::
  "Environment \<Rightarrow> TimelineDataSource \<Rightarrow> TimelineWindow \<Rightarrow> TimelineWindow option \<times> TimelineDataSource" where
  "refreshEvents_start env s window =
     (let (covered, live) =
            ExpiringMemoryRangeSet_hasCoverage (now_called env) (eventRanges s)
              \<lparr>range_start = range_start window,
               range_end = sub_seconds (capEndDate (now_called env) (range_end window))
                             TIMELINE_FRESHNESS_TOLERANCE_SECONDS\<rparr>;
          s1 = s\<lparr>eventRanges := live\<rparr>
      in if covered then (None, s1)
         else (Some (getCacheFriendlyEventWindow (now_called env) window), s1))"

text \<open>
  The body of the loop over the results: a record with a truthy id (a non-empty string) and
  a start time is the argument of \<^verbatim>\<open>this._dataset.update\<close>; \<^verbatim>\<open>end\<close> is set only with an end
  time.
\<close>

definition ingestEventMedia :: "ViewMedia \<Rightarrow> DataSet \<Rightarrow> DataSet" where
  "ingestEventMedia media ds =
     (case (media_id media, media_startTime media) of
        (Some k, Some startTime) \<Rightarrow>
          (if k \<noteq> []
           then DataSet_update
                  \<lparr>item_id = k, item_group = media_cameraID media, item_content = [],
                   item_start = startTime, item_end = media_endTime media,
                   item_type = (case media_endTime media of
                                  Some endTime \<Rightarrow> TypeRange | None \<Rightarrow> TypePoint),
                   item_media = Some media\<rparr> ds
           else ds)
      | _ \<Rightarrow> ds)"

text \<open>\<^verbatim>\<open>_refreshEvents\<close> from its await on, given the cache friendly window computed before.\<close>

definition refreshEvents_resume ::
  "Environment \<Rightarrow> TimelineWindow \<Rightarrow> TimelineDataSource \<Rightarrow> promise \<times> TimelineDataSource" where
  "refreshEvents_resume env cacheFriendlyWindow s =
     (case executeMediaQuery env (getTimelineEventQueries s cacheFriendlyWindow) of
        Inl e \<Rightarrow> (Rejected e, s)
      | Inr results \<Rightarrow>
          (Resolved,
           s\<lparr>dataset := fold ingestEventMedia (case results of None \<Rightarrow> [] | Some ms \<Rightarrow> ms) (dataset s),
             eventRanges :=
               ExpiringMemoryRangeSet_add (now_events_resumed env)
                 \<lparr>range_start = range_start cacheFriendlyWindow,
                  range_end = range_end cacheFriendlyWindow,
                  expires = add_seconds (now_events_resumed env)
                              TIMELINE_FRESHNESS_TOLERANCE_SECONDS\<rparr>
                 (eventRanges s)\<rparr>))"

definition refreshEvents ::
  "Environment \<Rightarrow> TimelineDataSource \<Rightarrow> TimelineWindow \<Rightarrow> promise \<times> TimelineDataSource" where
  "refreshEvents env s window =
     (case refreshEvents_start env s window of
        (None, s1) \<Rightarrow> (Resolved, s1)
      | (Some cacheFriendlyWindow, s1) \<Rightarrow> refreshEvents_resume env cacheFriendlyWindow s1)"

subsection \<open>The recordings leg\<close>

definition convertSegmentToRecording :: "string \<Rightarrow> RecordingSegment \<Rightarrow> FrigateCardTimelineItemWithEnd" where
  "convertSegmentToRecording cameraID segment =
     \<lparr>item_id = ''recording-'' @ cameraID @ ''-'' @ segment_id segment,
      item_group = cameraID,
      item_content = [],
      item_start = start_time segment * 1000,
      item_end = end_time segment * 1000,
      item_type = TypeBackground,
      item_media = None\<rparr>"

definition getExistingRecordingsForCameraID :: "DataSet \<Rightarrow> string \<Rightarrow> FrigateCardTimelineItemWithEnd list" where
  "getExistingRecordingsForCameraID ds cameraID =
     List.map_filter as_with_end
       (DataSet_get (\<lambda>item. item_type item = TypeBackground \<and> item_group item = cameraID
                           \<and> item_end item \<noteq> None) ds)"

definition deleteRecordingsForCameraID :: "string \<Rightarrow> DataSet \<Rightarrow> DataSet" where
  "deleteRecordingsForCameraID cameraID ds =
     DataSet_remove
       (DataSet_get (\<lambda>item. item_type item = TypeBackground \<and> item_group item = cameraID) ds) ds"

definition addRecordings :: "FrigateCardTimelineItemWithEnd list \<Rightarrow> DataSet \<Rightarrow> error option \<times> DataSet" where
  "addRecordings recordings ds = DataSet_add (map of_with_end recordings) ds"

text \<open>
  \<^verbatim>\<open>_refreshRecordings\<close> up to its await: the coverage check and the cache friendly window.
\<close>

definition refreshRecordings_start ::
  "Environment \<Rightarrow> TimelineDataSource \<Rightarrow> TimelineWindow \<Rightarrow> TimelineWindow option" where
  "refreshRecordings_start env s window =
     (if MemoryRangeSet_hasCoverage (recordingRanges s)
           \<lparr>range_start = range_start window,
            range_end = sub_seconds (capEndDate (now_called env) (range_end window))
                          TIMELINE_FRESHNESS_TOLERANCE_SECONDS\<rparr>
      then None
      else Some (convertRangeToCacheFriendlyTimes (now_called env) window True))"

text \<open>
  The first loop: \<^verbatim>\<open>newSegments\<close>, a map from camera id to segments in insertion order. An
  entry is created for the camera of every result, also of a result without segments.
\<close>

fun newSegments_push ::
  "string \<Rightarrow> RecordingSegment list \<Rightarrow> (string \<times> RecordingSegment list) list
    \<Rightarrow> (string \<times> RecordingSegment list) list" where
  "newSegments_push cameraID segments [] = [(cameraID, segments)]"
| "newSegments_push cameraID segments ((c, destination) # rest) =
     (if c = cameraID then (c, destination @ segments) # rest
      else (c, destination) # newSegments_push cameraID segments rest)"

definition newSegments_of ::
  "(string \<times> RecordingSegment list) list \<Rightarrow> (string \<times> RecordingSegment list) list" where
  "newSegments_of results =
     fold (\<lambda>(cameraID, segments) newSegments. newSegments_push cameraID segments newSegments)
       results []"

text \<open>The body of the second loop, and the loop; an exception of \<^verbatim>\<open>add\<close> ends it.\<close>

definition ingestCameraRecordings ::
  "string \<times> RecordingSegment list \<Rightarrow> DataSet \<Rightarrow> error option \<times> DataSet" where
  "ingestCameraRecordings entry ds =
     (let cameraID = fst entry;
          segments = snd entry;
          existingRecordings = getExistingRecordingsForCameraID ds cameraID;
          mergedRecordings =
            existingRecordings @ map (convertSegmentToRecording cameraID) segments;
          compressedRecordings =
            compressRanges mergedRecordings
              TIMELINE_RECORDING_SEGMENT_CONSECUTIVE_TOLERANCE_SECONDS
      in addRecordings compressedRecordings (deleteRecordingsForCameraID cameraID ds))"

fun ingestRecordings ::
  "(string \<times> RecordingSegment list) list \<Rightarrow> DataSet \<Rightarrow> error option \<times> DataSet" where
  "ingestRecordings [] ds = (None, ds)"
| "ingestRecordings (entry # entries) ds =
     (case ingestCameraRecordings entry ds of
        (Some e, ds1) \<Rightarrow> (Some e, ds1)
      | (None, ds1) \<Rightarrow> ingestRecordings entries ds1)"

definition getRecordingSegmentsQueries :: "TimelineDataSource \<Rightarrow> TimelineWindow \<Rightarrow> RecordingSegmentsQuery" where
  "getRecordingSegmentsQueries s cacheFriendlyWindow =
     \<lparr>rq_cameraIDs = cameraIDs s, rq_start = range_start cacheFriendlyWindow,
      rq_end = range_end cacheFriendlyWindow\<rparr>"

text \<open>\<^verbatim>\<open>_refreshRecordings\<close> from its await on.\<close>

definition refreshRecordings_resume ::
  "Environment \<Rightarrow> TimelineWindow \<Rightarrow> TimelineDataSource \<Rightarrow> promise \<times> TimelineDataSource" where
  "refreshRecordings_resume env cacheFriendlyWindow s =
     (case getRecordingSegments env (getRecordingSegmentsQueries s cacheFriendlyWindow) of
        Inl e \<Rightarrow> (Rejected e, s)
      | Inr results \<Rightarrow>
          (case ingestRecordings (newSegments_of results) (dataset s) of
             (Some e, ds) \<Rightarrow> (Rejected e, s\<lparr>dataset := ds\<rparr>)
           | (None, ds) \<Rightarrow>
               (Resolved,
                s\<lparr>dataset := ds,
                  recordingRanges :=
                    MemoryRangeSet_add
                      \<lparr>range_start = range_start cacheFriendlyWindow,
                       range_end = range_end cacheFriendlyWindow\<rparr>
                      (recordingRanges s)\<rparr>)))"

definition refreshRecordings ::
  "Environment \<Rightarrow> TimelineDataSource \<Rightarrow> TimelineWindow \<Rightarrow> promise \<times> TimelineDataSource" where
  "refreshRecordings env s window =
     (case refreshRecordings_start env s window of
        None \<Rightarrow> (Resolved, s)
      | Some cacheFriendlyWindow \<Rightarrow> refreshRecordings_resume env cacheFriendlyWindow s)"

subsection \<open>refresh\<close>

text \<open>
  \<^verbatim>\<open>Promise.all\<close> of two promises, in the order in which they settle: it rejects with the
  first rejection.
\<close>

definition Promise_all :: "promise \<Rightarrow> promise \<Rightarrow> promise" where
  "Promise_all first second = (case first of Rejected e \<Rightarrow> Rejected e | Resolved \<Rightarrow> second)"

text \<open>
  One call of \<^verbatim>\<open>refresh\<close>. Both legs run up to their awaits when they are called, the events
  leg first; each resumes when its answer arrives, in the order the environment gives. A
  leg is not cancelled by the other's failure, so the state of the result is the state once
  both legs have settled. \<^verbatim>\<open>result_events\<close> and \<^verbatim>\<open>result_recordings\<close> are the promises of the two legs.
  \<^verbatim>\<open>result_promise\<close> is the promise that \<^verbatim>\<open>refresh\<close> returns: the
  \<^verbatim>\<open>catch\<close> block logs the error with \<^verbatim>\<open>errorToConsole\<close> (\<^verbatim>\<open>result_console\<close>) and does not
  throw again. \<^verbatim>\<open>result_event_queries\<close> and \<^verbatim>\<open>result_recording_queries\<close> are the queries
  sent to the provider.
\<close>

record RefreshResult =
  result_state :: TimelineDataSource
  result_events :: promise
  result_recordings :: promise
  result_promise :: promise
  result_console :: "error list"
  result_event_queries :: "EventQuery list"
  result_recording_queries :: "RecordingSegmentsQuery list"

text \<open>A leg resumes when its answer arrives; a leg that returned at its check has resolved.\<close>

definition resumeEvents ::
  "Environment \<Rightarrow> TimelineWindow option \<Rightarrow> TimelineDataSource \<Rightarrow> promise \<times> TimelineDataSource" where
  "resumeEvents env pendingEvents st =
     (case pendingEvents of
        None \<Rightarrow> (Resolved, st)
      | Some cacheFriendlyWindow \<Rightarrow> refreshEvents_resume env cacheFriendlyWindow st)"

definition resumeRecordings ::
  "Environment \<Rightarrow> TimelineWindow option \<Rightarrow> TimelineDataSource \<Rightarrow> promise \<times> TimelineDataSource" where
  "resumeRecordings env pendingRecordings st =
     (case pendingRecordings of
        None \<Rightarrow> (Resolved, st)
      | Some cacheFriendlyWindow \<Rightarrow> refreshRecordings_resume env cacheFriendlyWindow st)"

definition refresh :: "Environment \<Rightarrow> TimelineDataSource \<Rightarrow> TimelineWindow \<Rightarrow> RefreshResult" where
  "refresh env s window =
     (let started = refreshEvents_start env s window;
          pendingEvents = fst started;
          s1 = snd started;
          pendingRecordings = refreshRecordings_start env s1 window;
          eventsFirst = resumeEvents env pendingEvents s1;
          recordingsSecond = resumeRecordings env pendingRecordings (snd eventsFirst);
          recordingsFirst = resumeRecordings env pendingRecordings s1;
          eventsSecond = resumeEvents env pendingEvents (snd recordingsFirst);
          pe = (if events_settle_first env then fst eventsFirst else fst eventsSecond);
          pr = (if events_settle_first env then fst recordingsSecond else fst recordingsFirst);
          settled = (if events_settle_first env then Promise_all pe pr else Promise_all pr pe)
      in \<lparr>result_state =
            (if events_settle_first env then snd recordingsSecond else snd eventsSecond),
          result_events = pe,
          result_recordings = pr,
          result_promise = (case settled of Rejected e \<Rightarrow> Resolved | Resolved \<Rightarrow> Resolved),
          result_console = (case settled of Rejected e \<Rightarrow> [e] | Resolved \<Rightarrow> []),
          result_event_queries =
            (case pendingEvents of
               None \<Rightarrow> []
             | Some cacheFriendlyWindow \<Rightarrow> [getTimelineEventQueries s cacheFriendlyWindow]),
          result_recording_queries =
            (case pendingRecordings of
               None \<Rightarrow> []
             | Some cacheFriendlyWindow \<Rightarrow> [getRecordingSegmentsQueries s cacheFriendlyWindow])\<rparr>)"

section \<open>Observations used in the statements\<close>

text \<open>
  A media record with a usable id and start time: the condition \<^verbatim>\<open>id && startTime\<close> of
  \<^verbatim>\<open>_refreshEvents\<close>.
\<close>

definition has_usable_id_and_start :: "ViewMedia \<Rightarrow> bool" where
  "has_usable_id_and_start media =
     (case (media_id media, media_startTime media) of
        (Some k, Some startTime) \<Rightarrow> k \<noteq> []
      | _ \<Rightarrow> False)"

text \<open>The argument of \<^verbatim>\<open>this._dataset.update\<close> for such a record.\<close>

definition event_item :: "ViewMedia \<Rightarrow> string \<Rightarrow> instant \<Rightarrow> FrigateCardTimelineItem" where
  "event_item media k startTime =
     \<lparr>item_id = k, item_group = media_cameraID media, item_content = [],
      item_start = startTime, item_end = media_endTime media,
      item_type = (case media_endTime media of Some endTime \<Rightarrow> TypeRange | None \<Rightarrow> TypePoint),
      item_media = Some media\<rparr>"

text \<open>The background items of one camera, in the order of the collection.\<close>

definition recordings_of :: "string \<Rightarrow> DataSet \<Rightarrow> FrigateCardTimelineItem list" where
  "recordings_of cameraID ds =
     DataSet_get (\<lambda>item. item_type item = TypeBackground \<and> item_group item = cameraID) ds"

text \<open>
  The compression of a camera's existing recordings followed by its newly converted
  segments: \<^verbatim>\<open>compressedRecordings\<close> in the second loop of \<^verbatim>\<open>_refreshRecordings\<close>.
\<close>

definition compressed_for :: "string \<Rightarrow> RecordingSegment list \<Rightarrow> DataSet \<Rightarrow> FrigateCardTimelineItem list" where
  "compressed_for c segs ds =
     map of_with_end
       (compressRanges (getExistingRecordingsForCameraID ds c @ map (convertSegmentToRecording c) segs)
          TIMELINE_RECORDING_SEGMENT_CONSECUTIVE_TOLERANCE_SECONDS)"

text \<open>
  The calls that the second loop of \<^verbatim>\<open>_refreshRecordings\<close> makes on the collection, in order:
  for every entry of the segment map one \<^verbatim>\<open>remove\<close> (by \<^verbatim>\<open>deleteRecordingsForCameraID\<close>) with
  the items it is given, and one \<^verbatim>\<open>add\<close> (by \<^verbatim>\<open>addRecordings\<close>) with the compressed
  recordings; the loop ends at an \<^verbatim>\<open>add\<close> that throws. \<^verbatim>\<open>replay_calls\<close> performs a list of
  such calls on a collection; the collection after the loop is the replay of its calls
  (\<open>replay_ingestRecordings_calls\<close> below).
\<close>

datatype DataSet_call =
  RemoveCall "FrigateCardTimelineItem list"
| AddCall "FrigateCardTimelineItem list"

fun call_items :: "DataSet_call \<Rightarrow> FrigateCardTimelineItem list" where
  "call_items (RemoveCall items) = items"
| "call_items (AddCall items) = items"

fun removed_items :: "DataSet_call \<Rightarrow> FrigateCardTimelineItem list" where
  "removed_items (RemoveCall items) = items"
| "removed_items (AddCall items) = []"

definition ingestCameraRecordings_calls ::
  "string \<times> RecordingSegment list \<Rightarrow> DataSet \<Rightarrow> DataSet_call list" where
  "ingestCameraRecordings_calls entry ds =
     (let cameraID = fst entry;
          segments = snd entry;
          existingRecordings = getExistingRecordingsForCameraID ds cameraID;
          mergedRecordings =
            existingRecordings @ map (convertSegmentToRecording cameraID) segments;
          compressedRecordings =
            compressRanges mergedRecordings
              TIMELINE_RECORDING_SEGMENT_CONSECUTIVE_TOLERANCE_SECONDS
      in [RemoveCall
            (DataSet_get (\<lambda>item. item_type item = TypeBackground \<and> item_group item = cameraID) ds),
          AddCall (map of_with_end compressedRecordings)])"

fun ingestRecordings_calls ::
  "(string \<times> RecordingSegment list) list \<Rightarrow> DataSet \<Rightarrow> DataSet_call list" where
  "ingestRecordings_calls [] ds = []"
| "ingestRecordings_calls (entry # entries) ds =
     ingestCameraRecordings_calls entry ds
     @ (case ingestCameraRecordings entry ds of
          (Some e, ds1) \<Rightarrow> []
        | (None, ds1) \<Rightarrow> ingestRecordings_calls entries ds1)"

definition refreshRecordings_resume_calls ::
  "Environment \<Rightarrow> TimelineWindow \<Rightarrow> TimelineDataSource \<Rightarrow> DataSet_call list" where
  "refreshRecordings_resume_calls env cacheFriendlyWindow s =
     (case getRecordingSegments env (getRecordingSegmentsQueries s cacheFriendlyWindow) of
        Inl e \<Rightarrow> []
      | Inr results \<Rightarrow> ingestRecordings_calls (newSegments_of results) (dataset s))"

fun replay_calls :: "DataSet_call list \<Rightarrow> DataSet \<Rightarrow> error option \<times> DataSet" where
  "replay_calls [] ds = (None, ds)"
| "replay_calls (RemoveCall items # calls) ds = replay_calls calls (DataSet_remove items ds)"
| "replay_calls (AddCall items # calls) ds =
     (case DataSet_add items ds of
        (Some e, ds1) \<Rightarrow> (Some e, ds1)
      | (None, ds1) \<Rightarrow> replay_calls calls ds1)"

text \<open>All segments that a fetch result holds for one camera, in the order of the result.\<close>

definition segments_for :: "string \<Rightarrow> (string \<times> RecordingSegment list) list \<Rightarrow> RecordingSegment list" where
  "segments_for cameraID results = concat (map snd (filter (\<lambda>entry. fst entry = cameraID) results))"

section \<open>MediaSorter (camera-manager/utils: sortMedia)\<close>

text \<open>
  Modelled from the spec: \<^verbatim>\<open>sortMedia\<close>, whose source is absent (its tests are in
  \<^verbatim>\<open>tests/camera-manager/utils.test.ts\<close>). The spec (MediaSorter): the primary key is the
  start time, ascending; records without a start time sort by id ascending
  (lexicographic) and come after all records with a start time; duplicates are collapsed
  after sorting, keeping the first occurrence. Two records are duplicates when both ids are
  non-null and equal; when either id is null, when the records are structurally equal.
  The sort is stable; among records without a start time a null id comes first.
\<close>

definition is_duplicate :: "ViewMedia \<Rightarrow> ViewMedia \<Rightarrow> bool" where
  "is_duplicate a b =
     (case (media_id a, media_id b) of
        (Some x, Some y) \<Rightarrow> x = y
      | _ \<Rightarrow> a = b)"

definition media_sort_key :: "ViewMedia \<Rightarrow> nat \<times> int \<times> string option" where
  "media_sort_key media =
     (case media_startTime media of
        Some startTime \<Rightarrow> (0, startTime, None)
      | None \<Rightarrow> (1, 0, media_id media))"

fun collapse_duplicates :: "ViewMedia list \<Rightarrow> ViewMedia list" where
  "collapse_duplicates [] = []"
| "collapse_duplicates (x # xs) =
     x # collapse_duplicates (filter (\<lambda>y. \<not> is_duplicate x y) xs)"

definition sortMedia :: "ViewMedia list \<Rightarrow> ViewMedia list" where
  "sortMedia mediaArray = collapse_duplicates (sort_key media_sort_key mediaArray)"

text \<open>
  The order of the result as the spec words it: by start time; a record without a start
  time after every record with one; two records without a start time by id.
\<close>

definition media_before_or_equal :: "ViewMedia \<Rightarrow> ViewMedia \<Rightarrow> bool" where
  "media_before_or_equal a b =
     (case (media_startTime a, media_startTime b) of
        (Some s, Some t) \<Rightarrow> s \<le> t
      | (Some s, None) \<Rightarrow> True
      | (None, Some t) \<Rightarrow> False
      | (None, None) \<Rightarrow> media_id a \<le> media_id b)"

section \<open>Example inputs\<close>

text \<open>
  Concrete inputs at which the theorems below are instantiated. The clock of the examples
  stands at 14:25:00 on the day of the repository's tests.
\<close>

definition example_window :: TimelineWindow where
  "example_window = \<lparr>range_start = test_day 14 1 2 0, range_end = test_day 14 40 0 0\<rparr>"

definition past_window :: TimelineWindow where
  "past_window = \<lparr>range_start = test_day 10 1 2 0, range_end = test_day 10 11 3 0\<rparr>"

definition fresh_source :: TimelineDataSource where
  "fresh_source =
     \<lparr>dataset = [], recordingRanges = [], eventRanges = [],
      cameraIDs = [''camera-1'', ''camera-2''], mediaType = MediaAll\<rparr>"

definition example_clip :: ViewMedia where
  "example_clip =
     \<lparr>media_id = Some ''event-1'', media_startTime = Some (test_day 14 5 0 0),
      media_endTime = Some (test_day 14 6 0 0), media_cameraID = ''camera-1''\<rparr>"

definition example_snapshot :: ViewMedia where
  "example_snapshot =
     \<lparr>media_id = Some ''event-2'', media_startTime = Some (test_day 14 7 0 0),
      media_endTime = None, media_cameraID = ''camera-1''\<rparr>"

definition example_malformed :: ViewMedia where
  "example_malformed =
     \<lparr>media_id = None, media_startTime = Some (test_day 14 8 0 0),
      media_endTime = None, media_cameraID = ''camera-1''\<rparr>"

definition example_segments :: "(string \<times> RecordingSegment list) list" where
  "example_segments =
     [(''camera-1'',
       [\<lparr>segment_id = ''1'', start_time = 1682776800, end_time = 1682776810\<rparr>,
        \<lparr>segment_id = ''2'', start_time = 1682776810, end_time = 1682776820\<rparr>])]"

definition example_env :: Environment where
  "example_env =
     \<lparr>now_called = test_day 14 25 0 0,
      now_events_resumed = test_day 14 25 2 0,
      executeMediaQuery = (\<lambda>query. Inr (Some [example_clip, example_malformed, example_snapshot])),
      getRecordingSegments = (\<lambda>query. Inr example_segments),
      events_settle_first = True\<rparr>"

definition events_failing_env :: Environment where
  "events_failing_env = example_env\<lparr>executeMediaQuery := (\<lambda>query. Inl FetchError)\<rparr>"

definition slow_env :: Environment where
  "slow_env = example_env\<lparr>now_events_resumed := test_day 14 26 40 0\<rparr>"

definition after_slow_env :: Environment where
  "after_slow_env =
     example_env\<lparr>now_called := test_day 14 26 40 0, now_events_resumed := test_day 14 26 42 0\<rparr>"

definition soon_after_env :: Environment where
  "soon_after_env =
     example_env\<lparr>now_called := test_day 14 25 5 0, now_events_resumed := test_day 14 25 7 0\<rparr>"

definition covered_source :: TimelineDataSource where
  "covered_source =
     fresh_source
       \<lparr>recordingRanges :=
          [\<lparr>range_start = test_day 10 0 0 0, range_end = test_day 10 59 59 999\<rparr>],
        eventRanges :=
          [\<lparr>range_start = test_day 10 0 0 0, range_end = test_day 10 59 59 999,
            expires = test_day 14 25 20 0\<rparr>]\<rparr>"

definition source_with_recordings :: TimelineDataSource where
  "source_with_recordings =
     fresh_source
       \<lparr>dataset :=
          [\<lparr>item_id = ''recording-camera-2-7'', item_group = ''camera-2'', item_content = [],
            item_start = test_day 13 0 0 0, item_end = Some (test_day 13 5 0 0),
            item_type = TypeBackground, item_media = None\<rparr>,
           \<lparr>item_id = ''recording-camera-1-0'', item_group = ''camera-1'', item_content = [],
            item_start = test_day 13 59 30 0, item_end = Some (test_day 14 0 0 0),
            item_type = TypeBackground, item_media = None\<rparr>]\<rparr>"

definition media_1 :: ViewMedia where
  "media_1 =
     \<lparr>media_id = Some ''id-1'', media_startTime = Some (test_day 14 25 0 0),
      media_endTime = None, media_cameraID = ''camera-1''\<rparr>"

definition media_2 :: ViewMedia where
  "media_2 =
     \<lparr>media_id = Some ''id-2'', media_startTime = Some (test_day 14 26 0 0),
      media_endTime = None, media_cameraID = ''camera-1''\<rparr>"

definition media_3_dup_id :: ViewMedia where
  "media_3_dup_id =
     \<lparr>media_id = Some ''id-2'', media_startTime = Some (test_day 14 26 0 0),
      media_endTime = None, media_cameraID = ''camera-1''\<rparr>"

definition media_4_no_id :: ViewMedia where
  "media_4_no_id =
     \<lparr>media_id = None, media_startTime = Some (test_day 14 27 0 0),
      media_endTime = None, media_cameraID = ''camera-1''\<rparr>"

definition media_named :: "string \<Rightarrow> ViewMedia" where
  "media_named k =
     \<lparr>media_id = Some k, media_startTime = None, media_endTime = None, media_cameraID = []\<rparr>"

definition both_failing_env :: Environment where
  "both_failing_env =
     example_env\<lparr>executeMediaQuery := (\<lambda>query. Inl FetchError),
                 getRecordingSegments := (\<lambda>query. Inl FetchError)\<rparr>"

definition recordings_failing_env :: Environment where
  "recordings_failing_env = example_env\<lparr>getRecordingSegments := (\<lambda>query. Inl FetchError)\<rparr>"

text \<open>An item that is only a range, for the examples of the compressor.\<close>

definition range_item :: "instant \<Rightarrow> instant \<Rightarrow> FrigateCardTimelineItemWithEnd" where
  "range_item s e =
     \<lparr>item_id = [], item_group = [], item_content = [], item_start = s, item_end = e,
      item_type = TypeBackground, item_media = None\<rparr>"

definition empty_result_env :: Environment where
  "empty_result_env = example_env\<lparr>getRecordingSegments := (\<lambda>query. Inr [(''camera-2'', [])])\<rparr>"

definition example_cache_friendly_window :: TimelineWindow where
  "example_cache_friendly_window =
     \<lparr>range_start = test_day 14 0 0 0, range_end = test_day 14 25 59 999\<rparr>"

section \<open>Properties of the model\<close>

lemmas clock_defs = test_day_def startOfHour_def endOfHour_def startOfDay_def endOfDay_def
  endOfMinute_def capEndDate_def add_seconds_def sub_seconds_def
  TIMELINE_FRESHNESS_TOLERANCE_SECONDS_def convertRangeToCacheFriendlyTimes_def
  getCacheFriendlyEventWindow_def

lemmas tracker_defs = range_covers_def MemoryRangeSet_hasCoverage_def
  ExpiringMemoryRangeSet_hasCoverage_def ExpiringMemoryRangeSet_add_def expireOldRanges_def

lemmas refresh_defs = refresh_def refreshEvents_start_def refreshRecordings_start_def
  resumeEvents_def resumeRecordings_def refreshEvents_resume_def refreshRecordings_resume_def
  getTimelineEventQueries_def getRecordingSegmentsQueries_def Promise_all_def

lemmas ingest_defs = ingestEventMedia_def newSegments_of_def ingestCameraRecordings_def
  getExistingRecordingsForCameraID_def deleteRecordingsForCameraID_def addRecordings_def
  DataSet_get_def DataSet_remove_def DataSet_add_def convertSegmentToRecording_def
  compressRanges_def
  as_with_end_def of_with_end_def merge_item_def
  TIMELINE_RECORDING_SEGMENT_CONSECUTIVE_TOLERANCE_SECONDS_def

lemmas example_defs = example_window_def past_window_def fresh_source_def example_clip_def
  example_snapshot_def example_malformed_def example_segments_def example_env_def
  events_failing_env_def slow_env_def after_slow_env_def soon_after_env_def covered_source_def
  source_with_recordings_def
  both_failing_env_def recordings_failing_env_def example_cache_friendly_window_def
  empty_result_env_def

lemma refreshEvents_start_snd:
  "snd (refreshEvents_start env s window) = s\<lparr>eventRanges := expireOldRanges (now_called env) (eventRanges s)\<rparr>"
  by (simp add: refreshEvents_start_def ExpiringMemoryRangeSet_hasCoverage_def Let_def)

lemma refreshEvents_start_fst:
  "fst (refreshEvents_start env s window) =
    (if fst (ExpiringMemoryRangeSet_hasCoverage (now_called env) (eventRanges s)
              \<lparr>range_start = range_start window,
               range_end = capEndDate (now_called env) (range_end window) - 30000\<rparr>) then None
     else Some (convertRangeToCacheFriendlyTimes (now_called env) window True))"
  by (simp add: refreshEvents_start_def ExpiringMemoryRangeSet_hasCoverage_def Let_def sub_seconds_def
     TIMELINE_FRESHNESS_TOLERANCE_SECONDS_def getCacheFriendlyEventWindow_def)

lemma refreshRecordings_start_eventRanges:
  "refreshRecordings_start env (s\<lparr>eventRanges := ers\<rparr>) window = refreshRecordings_start env s window"
  by (simp add: refreshRecordings_start_def)

lemma refreshRecordings_start_eq:
  "refreshRecordings_start env s window =
    (if MemoryRangeSet_hasCoverage (recordingRanges s)
              \<lparr>range_start = range_start window,
               range_end = capEndDate (now_called env) (range_end window) - 30000\<rparr> then None
     else Some (convertRangeToCacheFriendlyTimes (now_called env) window True))"
  by (simp add: refreshRecordings_start_def sub_seconds_def TIMELINE_FRESHNESS_TOLERANCE_SECONDS_def)

lemma refresh_event_queries:
  "result_event_queries (refresh env s window) =
     (case fst (refreshEvents_start env s window) of None \<Rightarrow> []
      | Some cfw \<Rightarrow> [getTimelineEventQueries s cfw])"
  by (simp add: refresh_def Let_def)

lemma refresh_recording_queries:
  "result_recording_queries (refresh env s window) =
     (case refreshRecordings_start env s window of None \<Rightarrow> []
      | Some cfw \<Rightarrow> [getRecordingSegmentsQueries s cfw])"
  by (simp add: refresh_def Let_def refreshEvents_start_snd refreshRecordings_start_eventRanges)

lemma refreshEvents_resume_frame:
  "recordingRanges (snd (refreshEvents_resume env cfw s)) = recordingRanges s"
  "cameraIDs (snd (refreshEvents_resume env cfw s)) = cameraIDs s"
  "mediaType (snd (refreshEvents_resume env cfw s)) = mediaType s"
  by (simp_all add: refreshEvents_resume_def split: sum.splits)

lemma refreshRecordings_resume_frame:
  "eventRanges (snd (refreshRecordings_resume env cfw s)) = eventRanges s"
  "cameraIDs (snd (refreshRecordings_resume env cfw s)) = cameraIDs s"
  "mediaType (snd (refreshRecordings_resume env cfw s)) = mediaType s"
  by (simp_all add: refreshRecordings_resume_def split: sum.splits prod.splits option.splits)

lemma resumeEvents_frame:
  "recordingRanges (snd (resumeEvents env p s)) = recordingRanges s"
  "cameraIDs (snd (resumeEvents env p s)) = cameraIDs s"
  "mediaType (snd (resumeEvents env p s)) = mediaType s"
  by (simp_all add: resumeEvents_def refreshEvents_resume_frame split: option.splits)

lemma resumeRecordings_frame:
  "eventRanges (snd (resumeRecordings env p s)) = eventRanges s"
  "cameraIDs (snd (resumeRecordings env p s)) = cameraIDs s"
  "mediaType (snd (resumeRecordings env p s)) = mediaType s"
  by (simp_all add: resumeRecordings_def refreshRecordings_resume_frame split: option.splits)

lemma DateRange_eta [simp]:
  "\<lparr>range_start = range_start (w::DateRange), range_end = range_end w\<rparr> = w"
  by (cases w) simp

lemma getTimelineEventQueries_frame:
  "getTimelineEventQueries (snd (resumeRecordings env p st)) cfw = getTimelineEventQueries st cfw"
  "getTimelineEventQueries (st\<lparr>eventRanges := ers\<rparr>) cfw = getTimelineEventQueries st cfw"
  by (simp_all add: getTimelineEventQueries_def resumeRecordings_frame)

lemma getRecordingSegmentsQueries_frame:
  "getRecordingSegmentsQueries (snd (resumeEvents env p st)) cfw = getRecordingSegmentsQueries st cfw"
  "getRecordingSegmentsQueries (st\<lparr>eventRanges := ers\<rparr>) cfw = getRecordingSegmentsQueries st cfw"
  by (simp_all add: getRecordingSegmentsQueries_def resumeEvents_frame)

lemma resumeEvents_fetch_ok:
  assumes "executeMediaQuery env (getTimelineEventQueries st cfw) = Inr results"
  shows "resumeEvents env (Some cfw) st =
    (Resolved,
     st\<lparr>dataset := fold ingestEventMedia (case results of None \<Rightarrow> [] | Some ms \<Rightarrow> ms) (dataset st),
        eventRanges := ExpiringMemoryRangeSet_add (now_events_resumed env)
           \<lparr>range_start = range_start cfw, range_end = range_end cfw,
            expires = now_events_resumed env + 30000\<rparr> (eventRanges st)\<rparr>)"
  using assms by (simp add: resumeEvents_def refreshEvents_resume_def add_seconds_def
      TIMELINE_FRESHNESS_TOLERANCE_SECONDS_def)

lemma resumeEvents_fetch_fails:
  assumes "executeMediaQuery env (getTimelineEventQueries st cfw) = Inl e"
  shows "resumeEvents env (Some cfw) st = (Rejected e, st)"
  using assms by (simp add: resumeEvents_def refreshEvents_resume_def)

lemma resumeEvents_resolved_iff:
  "fst (resumeEvents env (Some cfw) st) = Resolved \<longleftrightarrow>
    (\<exists>results. executeMediaQuery env (getTimelineEventQueries st cfw) = Inr results)"
  by (cases "executeMediaQuery env (getTimelineEventQueries st cfw)")
     (simp_all add: resumeEvents_def refreshEvents_resume_def)

lemma resumeRecordings_fetch_fails:
  assumes "getRecordingSegments env (getRecordingSegmentsQueries st cfw) = Inl e"
  shows "resumeRecordings env (Some cfw) st = (Rejected e, st)"
  using assms by (simp add: resumeRecordings_def refreshRecordings_resume_def)

lemma resumeRecordings_fetch_ok:
  assumes "getRecordingSegments env (getRecordingSegmentsQueries st cfw) = Inr results"
  shows "resumeRecordings env (Some cfw) st =
    (case ingestRecordings (newSegments_of results) (dataset st) of
       (Some e, ds) \<Rightarrow> (Rejected e, st\<lparr>dataset := ds\<rparr>)
     | (None, ds) \<Rightarrow> (Resolved, st\<lparr>dataset := ds,
          recordingRanges := MemoryRangeSet_add cfw (recordingRanges st)\<rparr>))"
  using assms by (simp add: resumeRecordings_def refreshRecordings_resume_def
      split: prod.splits option.splits)

lemma resumeRecordings_resolved:
  assumes "fst (resumeRecordings env (Some cfw) st) = Resolved"
  shows "recordingRanges (snd (resumeRecordings env (Some cfw) st))
           = MemoryRangeSet_add cfw (recordingRanges st)"
  using assms
  by (simp add: resumeRecordings_def refreshRecordings_resume_def
      split: sum.splits prod.splits option.splits)

lemma resumeEvents_resolved:
  assumes "fst (resumeEvents env (Some cfw) st) = Resolved"
  shows "eventRanges (snd (resumeEvents env (Some cfw) st))
           = ExpiringMemoryRangeSet_add (now_events_resumed env)
           \<lparr>range_start = range_start cfw, range_end = range_end cfw,
            expires = now_events_resumed env + 30000\<rparr> (eventRanges st)"
  using assms
  by (simp add: resumeEvents_def refreshEvents_resume_def add_seconds_def
      TIMELINE_FRESHNESS_TOLERANCE_SECONDS_def split: sum.splits)

lemma resumeEvents_eventRanges_indep:
  assumes "eventRanges st = eventRanges st'" "cameraIDs st = cameraIDs st'" "mediaType st = mediaType st'"
  shows "eventRanges (snd (resumeEvents env p st)) = eventRanges (snd (resumeEvents env p st'))"
    and "fst (resumeEvents env p st) = fst (resumeEvents env p st')"
  using assms
  by (simp_all add: resumeEvents_def refreshEvents_resume_def getTimelineEventQueries_def
      split: sum.splits option.splits)

lemma refresh_events_fetch_fails:
  assumes pe: "fst (refreshEvents_start env s window) = Some cfw"
    and fails: "executeMediaQuery env (getTimelineEventQueries s cfw) = Inl e"
  shows "result_state (refresh env s window)
           = snd (refreshRecordings env (s\<lparr>eventRanges := expireOldRanges (now_called env) (eventRanges s)\<rparr>) window)"
    and "result_events (refresh env s window) = Rejected e"
    and "result_recordings (refresh env s window)
           = fst (refreshRecordings env (s\<lparr>eventRanges := expireOldRanges (now_called env) (eventRanges s)\<rparr>) window)"
proof -
  let ?s1 = "s\<lparr>eventRanges := expireOldRanges (now_called env) (eventRanges s)\<rparr>"
  have e: "resumeEvents env (Some cfw) st = (Rejected e, st)"
    if "cameraIDs st = cameraIDs s" "mediaType st = mediaType s" for st
  proof (rule resumeEvents_fetch_fails)
    from that have "getTimelineEventQueries st cfw = getTimelineEventQueries s cfw"
      by (simp add: getTimelineEventQueries_def)
    with fails show "executeMediaQuery env (getTimelineEventQueries st cfw) = Inl e" by simp
  qed
  have e1: "resumeEvents env (Some cfw) ?s1 = (Rejected e, ?s1)"
    by (rule e) simp_all
  have e2: "resumeEvents env (Some cfw) (snd (resumeRecordings env p ?s1))
      = (Rejected e, snd (resumeRecordings env p ?s1))" for p
    by (rule e) (simp_all add: resumeRecordings_frame)
  have rr: "refreshRecordings env ?s1 window
      = resumeRecordings env (refreshRecordings_start env s window) ?s1"
    by (simp add: refreshRecordings_def resumeRecordings_def refreshRecordings_start_eventRanges
        split: option.splits)
  show "result_state (refresh env s window) = snd (refreshRecordings env ?s1 window)"
    by (simp add: refresh_def Let_def refreshEvents_start_snd refreshRecordings_start_eventRanges
        pe e1 e2 rr)
  show "result_events (refresh env s window) = Rejected e"
    by (simp add: refresh_def Let_def refreshEvents_start_snd refreshRecordings_start_eventRanges
        pe e1 e2)
  show "result_recordings (refresh env s window) = fst (refreshRecordings env ?s1 window)"
    by (simp add: refresh_def Let_def refreshEvents_start_snd refreshRecordings_start_eventRanges
        pe e1 e2 rr)
qed

lemma refresh_recordings_fetch_fails:
  assumes pr: "refreshRecordings_start env s window = Some cfw"
    and fails: "getRecordingSegments env (getRecordingSegmentsQueries s cfw) = Inl e"
  shows "result_state (refresh env s window) = snd (refreshEvents env s window)"
    and "result_recordings (refresh env s window) = Rejected e"
    and "result_events (refresh env s window) = fst (refreshEvents env s window)"
proof -
  let ?s1 = "s\<lparr>eventRanges := expireOldRanges (now_called env) (eventRanges s)\<rparr>"
  have f: "resumeRecordings env (Some cfw) st = (Rejected e, st)"
    if "cameraIDs st = cameraIDs s" for st
  proof (rule resumeRecordings_fetch_fails)
    from that have "getRecordingSegmentsQueries st cfw = getRecordingSegmentsQueries s cfw"
      by (simp add: getRecordingSegmentsQueries_def)
    with fails show "getRecordingSegments env (getRecordingSegmentsQueries st cfw) = Inl e" by simp
  qed
  have f1: "resumeRecordings env (Some cfw) ?s1 = (Rejected e, ?s1)"
    by (rule f) simp
  have f2: "resumeRecordings env (Some cfw) (snd (resumeEvents env p ?s1))
      = (Rejected e, snd (resumeEvents env p ?s1))" for p
    by (rule f) (simp add: resumeEvents_frame)
  have re: "refreshEvents env s window
      = resumeEvents env (fst (refreshEvents_start env s window)) ?s1"
    by (cases "refreshEvents_start env s window")
       (use refreshEvents_start_snd [of env s window] in
         \<open>simp add: refreshEvents_def resumeEvents_def split: option.splits\<close>)
  show "result_state (refresh env s window) = snd (refreshEvents env s window)"
    by (simp add: refresh_def Let_def refreshEvents_start_snd refreshRecordings_start_eventRanges
        pr f1 f2 re)
  show "result_recordings (refresh env s window) = Rejected e"
    by (simp add: refresh_def Let_def refreshEvents_start_snd refreshRecordings_start_eventRanges
        pr f1 f2)
  show "result_events (refresh env s window) = fst (refreshEvents env s window)"
    by (simp add: refresh_def Let_def refreshEvents_start_snd refreshRecordings_start_eventRanges
        pr f1 f2 re)
qed

lemma DataSet_lookup_update_same:
  "DataSet_lookup (item_id u) (DataSet_update u ds) =
     Some (case DataSet_lookup (item_id u) ds of None \<Rightarrow> u | Some old \<Rightarrow> merge_item old u)"
  by (induction ds) (simp_all add: DataSet_lookup_def merge_item_def)

lemma DataSet_lookup_update_other:
  "k \<noteq> item_id u \<Longrightarrow> DataSet_lookup k (DataSet_update u ds) = DataSet_lookup k ds"
  by (induction ds) (auto simp: DataSet_lookup_def merge_item_def)

lemma ingestEventMedia_unusable:
  "\<not> has_usable_id_and_start media \<Longrightarrow> ingestEventMedia media ds = ds"
  by (simp add: has_usable_id_and_start_def ingestEventMedia_def split: option.splits)

lemma ingestEventMedia_usable:
  assumes "media_id media = Some k" "k \<noteq> []" "media_startTime media = Some t"
  shows "ingestEventMedia media ds = DataSet_update (event_item media k t) ds"
  using assms by (simp add: ingestEventMedia_def event_item_def)

lemma ingestEventMedia_lookup_other:
  assumes "has_usable_id_and_start media \<longrightarrow> media_id media \<noteq> Some k"
  shows "DataSet_lookup k (ingestEventMedia media ds) = DataSet_lookup k ds"
proof (cases "has_usable_id_and_start media")
  case False
  then show ?thesis by (simp add: ingestEventMedia_unusable)
next
  case True
  then obtain k' t where m: "media_id media = Some k'" "k' \<noteq> []" "media_startTime media = Some t"
    by (auto simp: has_usable_id_and_start_def split: option.splits)
  with assms True have "k \<noteq> k'" by auto
  with m show ?thesis
    by (simp add: ingestEventMedia_usable DataSet_lookup_update_other event_item_def)
qed

lemma fold_ingest_lookup_other:
  assumes "\<forall>m\<in>set ms. has_usable_id_and_start m \<longrightarrow> media_id m \<noteq> Some k"
  shows "DataSet_lookup k (fold ingestEventMedia ms ds) = DataSet_lookup k ds"
  using assms by (induction ms arbitrary: ds) (simp_all add: ingestEventMedia_lookup_other)

lemma ingestEventMedia_lookup_same:
  assumes "media_id media = Some k" "k \<noteq> []" "media_startTime media = Some t"
  shows "\<exists>item. DataSet_lookup k (ingestEventMedia media ds) = Some item
           \<and> item_type item = (case media_endTime media of Some e \<Rightarrow> TypeRange | None \<Rightarrow> TypePoint)
           \<and> item_start item = t \<and> item_group item = media_cameraID media
           \<and> item_media item = Some media"
proof -
  have "item_id (event_item media k t) = k" by (simp add: event_item_def)
  with DataSet_lookup_update_same [of "event_item media k t" ds]
  have "DataSet_lookup k (DataSet_update (event_item media k t) ds) =
     Some (case DataSet_lookup k ds of None \<Rightarrow> event_item media k t
           | Some old \<Rightarrow> merge_item old (event_item media k t))"
    by simp
  with assms show ?thesis
    by (simp add: ingestEventMedia_usable)
       (simp add: event_item_def merge_item_def split: option.splits)
qed

lemma fold_ingest_filter:
  "fold ingestEventMedia (filter has_usable_id_and_start ms) ds = fold ingestEventMedia ms ds"
  by (induction ms arbitrary: ds) (simp_all add: ingestEventMedia_unusable)

lemma DataSet_addItems_take: "\<exists>n. snd (DataSet_addItems xs ds) = ds @ take n xs"
proof (induction xs arbitrary: ds)
  case Nil
  show ?case by simp
next
  case (Cons x xs)
  show ?case
  proof (cases "item_id x \<in> set (map item_id ds)")
    case True
    then have "snd (DataSet_addItems (x # xs) ds) = ds @ take 0 (x # xs)" by simp
    then show ?thesis by blast
  next
    case False
    from Cons.IH [of "ds @ [x]"] obtain n
      where "snd (DataSet_addItems xs (ds @ [x])) = (ds @ [x]) @ take n xs"
      by blast
    with False have "snd (DataSet_addItems (x # xs) ds) = ds @ take (Suc n) (x # xs)" by simp
    then show ?thesis by blast
  qed
qed

lemma DataSet_addItems_ok:
  "fst (DataSet_addItems xs ds) = None \<Longrightarrow> snd (DataSet_addItems xs ds) = ds @ xs"
  by (induction xs arbitrary: ds) (simp_all split: if_splits)

lemma DataSet_addItems_distinct:
  "distinct (map item_id ds) \<Longrightarrow> distinct (map item_id (snd (DataSet_addItems xs ds)))"
  by (induction xs arbitrary: ds) simp_all

lemma DataSet_add_take: "\<exists>n. snd (DataSet_add xs ds) = ds @ take n xs"
proof (cases "list_ex (\<lambda>x. item_id x \<in> set (map item_id ds)) xs")
  case True
  then have "snd (DataSet_add xs ds) = ds @ take 0 xs"
    by (simp add: DataSet_add_def)
  then show ?thesis by blast
next
  case False
  with DataSet_addItems_take [of xs ds] show ?thesis
    by (simp add: DataSet_add_def)
qed

lemma DataSet_add_ok: "fst (DataSet_add xs ds) = None \<Longrightarrow> snd (DataSet_add xs ds) = ds @ xs"
  by (simp add: DataSet_add_def DataSet_addItems_ok split: if_splits)

lemma DataSet_add_distinct:
  "distinct (map item_id ds) \<Longrightarrow> distinct (map item_id (snd (DataSet_add xs ds)))"
  by (simp add: DataSet_add_def DataSet_addItems_distinct)

lemma DataSet_remove_get:
  assumes "distinct (map item_id ds)"
  shows "DataSet_remove (DataSet_get q ds) ds = filter (\<lambda>i. \<not> q i) ds"
proof -
  from assms have inj: "inj_on item_id (set ds)" by (simp add: distinct_map)
  have "item_id i \<notin> set (map item_id (filter q ds)) \<longleftrightarrow> \<not> q i" if "i \<in> set ds" for i
  proof
    assume "item_id i \<notin> set (map item_id (filter q ds))"
    with that show "\<not> q i" by auto
  next
    assume nq: "\<not> q i"
    show "item_id i \<notin> set (map item_id (filter q ds))"
    proof
      assume "item_id i \<in> set (map item_id (filter q ds))"
      then obtain j where j: "j \<in> set ds" "q j" "item_id j = item_id i" by auto
      with inj that have "j = i" by (auto dest: inj_onD)
      with j nq show False by simp
    qed
  qed
  then show ?thesis
    unfolding DataSet_remove_def DataSet_get_def by (intro filter_cong) auto
qed

lemma DataSet_remove_distinct:
  "distinct (map item_id ds) \<Longrightarrow> distinct (map item_id (DataSet_remove xs ds))"
  by (simp add: DataSet_remove_def distinct_map_filter)

lemma compress_walk_fields:
  assumes "item_group cur = g \<and> item_type cur = ty"
    and "\<forall>x\<in>set xs. item_group x = g \<and> item_type x = ty"
  shows "\<forall>y\<in>set (compress_walk tol cur xs). item_group y = g \<and> item_type y = ty"
  using assms
proof (induction xs arbitrary: cur)
  case Nil
  then show ?case by simp
next
  case (Cons x xs)
  show ?case
  proof (cases "item_start x - item_end cur \<le> tol")
    case True
    have "\<forall>y\<in>set (compress_walk tol (cur\<lparr>item_end := max (item_end cur) (item_end x)\<rparr>) xs).
            item_group y = g \<and> item_type y = ty"
      using Cons.prems by (intro Cons.IH) simp_all
    with True show ?thesis by simp
  next
    case False
    have "\<forall>y\<in>set (compress_walk tol x xs). item_group y = g \<and> item_type y = ty"
      using Cons.prems by (intro Cons.IH) simp_all
    with False Cons.prems(1) show ?thesis by simp
  qed
qed

lemma compressRanges_fields:
  assumes "\<forall>x\<in>set xs. item_group x = g \<and> item_type x = ty"
  shows "\<forall>y\<in>set (compressRanges xs tol). item_group y = g \<and> item_type y = ty"
proof (cases "sort_key (\<lambda>i. (item_start i, item_end i)) xs")
  case Nil
  then show ?thesis by (simp add: compressRanges_def)
next
  case (Cons a as)
  have "set (a # as) = set xs"
    by (metis Cons set_sort)
  with assms have "item_group a = g \<and> item_type a = ty"
    and "\<forall>x\<in>set as. item_group x = g \<and> item_type x = ty" by auto
  from compress_walk_fields [OF this] Cons show ?thesis
    by (simp add: compressRanges_def)
qed

lemma getExisting_fields:
  "\<forall>x\<in>set (getExistingRecordingsForCameraID ds c). item_group x = c \<and> item_type x = TypeBackground"
  by (auto simp: getExistingRecordingsForCameraID_def DataSet_get_def List.map_filter_def as_with_end_def
      split: option.splits)

lemma getExisting_recordings_of:
  "getExistingRecordingsForCameraID ds c =
     List.map_filter as_with_end (filter (\<lambda>item. item_end item \<noteq> None) (recordings_of c ds))"
  by (simp add: getExistingRecordingsForCameraID_def recordings_of_def DataSet_get_def conj_commute
      conj_left_commute)

lemma merged_fields:
  "\<forall>x\<in>set (getExistingRecordingsForCameraID ds c @ map (convertSegmentToRecording c) segs).
     item_group x = c \<and> item_type x = TypeBackground"
  using getExisting_fields [of ds c] by (auto simp: convertSegmentToRecording_def)

lemma compressed_for_fields:
  "\<forall>x\<in>set (compressed_for c segs ds). item_group x = c \<and> item_type x = TypeBackground"
  using compressRanges_fields [OF merged_fields, of ds c segs]
  by (auto simp: compressed_for_def of_with_end_def)

lemma recordings_of_compressed_for:
  "recordings_of c (compressed_for c segs ds) = compressed_for c segs ds"
  using compressed_for_fields [of c segs ds]
  by (simp add: recordings_of_def DataSet_get_def)

lemma recordings_of_take_compressed_other:
  "c' \<noteq> c \<Longrightarrow> recordings_of c' (take n (compressed_for c segs ds)) = []"
  using compressed_for_fields [of c segs ds]
  by (auto simp: recordings_of_def DataSet_get_def filter_empty_conv dest: in_set_takeD)

lemma ingestCameraRecordings_eq:
  "ingestCameraRecordings (c, segs) ds =
     DataSet_add (compressed_for c segs ds) (deleteRecordingsForCameraID c ds)"
  by (simp add: ingestCameraRecordings_def Let_def addRecordings_def compressed_for_def)

lemma deleteRecordings_eq:
  "distinct (map item_id ds) \<Longrightarrow>
   deleteRecordingsForCameraID c ds =
     filter (\<lambda>item. \<not> (item_type item = TypeBackground \<and> item_group item = c)) ds"
  by (simp add: deleteRecordingsForCameraID_def DataSet_remove_get)

lemma ingestCameraRecordings_distinct:
  "distinct (map item_id ds) \<Longrightarrow> distinct (map item_id (snd (ingestCameraRecordings entry ds)))"
  by (cases entry)
     (simp add: ingestCameraRecordings_eq DataSet_add_distinct deleteRecordingsForCameraID_def
        DataSet_remove_distinct)

lemma ingestCameraRecordings_other:
  assumes "distinct (map item_id ds)" "c' \<noteq> c"
  shows "recordings_of c' (snd (ingestCameraRecordings (c, segs) ds)) = recordings_of c' ds"
proof -
  obtain n where n: "snd (ingestCameraRecordings (c, segs) ds)
      = deleteRecordingsForCameraID c ds @ take n (compressed_for c segs ds)"
    using DataSet_add_take [of "compressed_for c segs ds" "deleteRecordingsForCameraID c ds"]
    by (auto simp: ingestCameraRecordings_eq)
  have "recordings_of c' (deleteRecordingsForCameraID c ds) = recordings_of c' ds"
    using assms
    by (simp add: deleteRecordings_eq recordings_of_def DataSet_get_def) (rule filter_cong; auto)
  moreover have "recordings_of c' (xs @ ys) = recordings_of c' xs @ recordings_of c' ys" for xs ys
    by (simp add: recordings_of_def DataSet_get_def)
  ultimately show ?thesis
    using assms n by (simp add: recordings_of_take_compressed_other)
qed

lemma ingestCameraRecordings_same:
  assumes "distinct (map item_id ds)" "fst (ingestCameraRecordings (c, segs) ds) = None"
  shows "recordings_of c (snd (ingestCameraRecordings (c, segs) ds)) = compressed_for c segs ds"
proof -
  from assms(2) have "snd (ingestCameraRecordings (c, segs) ds)
      = deleteRecordingsForCameraID c ds @ compressed_for c segs ds"
    by (simp add: ingestCameraRecordings_eq DataSet_add_ok)
  moreover have "recordings_of c (deleteRecordingsForCameraID c ds) = []"
    using assms(1)
    by (simp add: deleteRecordings_eq recordings_of_def DataSet_get_def)
  moreover have "recordings_of c (xs @ ys) = recordings_of c xs @ recordings_of c ys" for xs ys
    by (simp add: recordings_of_def DataSet_get_def)
  ultimately show ?thesis
    by (simp add: recordings_of_compressed_for)
qed

lemma ingestRecordings_distinct:
  "distinct (map item_id ds) \<Longrightarrow> distinct (map item_id (snd (ingestRecordings entries ds)))"
proof (induction entries arbitrary: ds)
  case Nil
  then show ?case by simp
next
  case (Cons entry entries)
  from ingestCameraRecordings_distinct [OF Cons.prems, of entry] Cons.IH
  show ?case
    by (cases "ingestCameraRecordings entry ds") (auto split: option.splits)
qed

lemma ingestRecordings_other:
  assumes "distinct (map item_id ds)" "c \<notin> fst ` set entries"
  shows "recordings_of c (snd (ingestRecordings entries ds)) = recordings_of c ds"
  using assms
proof (induction entries arbitrary: ds)
  case Nil
  then show ?case by simp
next
  case (Cons entry entries)
  obtain c' segs where entry: "entry = (c', segs)" by (cases entry)
  with Cons.prems have ne: "c \<noteq> c'" by auto
  have step: "recordings_of c (snd (ingestCameraRecordings entry ds)) = recordings_of c ds"
    using ingestCameraRecordings_other [OF Cons.prems(1) ne] entry by simp
  have d: "distinct (map item_id (snd (ingestCameraRecordings entry ds)))"
    by (rule ingestCameraRecordings_distinct [OF Cons.prems(1)])
  show ?case
  proof (cases "ingestCameraRecordings entry ds")
    case (Pair e ds1)
    with step d Cons.IH [of ds1] Cons.prems(2) show ?thesis
      by (cases e) auto
  qed
qed

lemma ingestRecordings_same:
  assumes "distinct (map item_id ds)" "distinct (map fst entries)" "(c, segs) \<in> set entries"
    "fst (ingestRecordings entries ds) = None"
  shows "recordings_of c (snd (ingestRecordings entries ds)) = compressed_for c segs ds"
  using assms
proof (induction entries arbitrary: ds)
  case Nil
  then show ?case by simp
next
  case (Cons entry entries)
  obtain c' segs' where entry: "entry = (c', segs')" by (cases entry)
  obtain e ds1 where step: "ingestCameraRecordings entry ds = (e, ds1)"
    by (cases "ingestCameraRecordings entry ds")
  with Cons.prems(4) have e: "e = None"
    by (cases e) simp_all
  with step Cons.prems(4) have rest: "fst (ingestRecordings entries ds1) = None"
    by simp
  have d1: "distinct (map item_id ds1)"
    using ingestCameraRecordings_distinct [OF Cons.prems(1), of entry] step by simp
  show ?case
  proof (cases "c = c'")
    case True
    from Cons.prems(2) entry True have notin: "c \<notin> fst ` set entries"
      by simp
    then have "(c, segs) \<notin> set entries"
      by (metis fst_conv image_eqI)
    with Cons.prems(3) entry True have segs: "segs' = segs"
      by simp
    from ingestCameraRecordings_same [OF Cons.prems(1), of c segs] step e entry True segs
    have "recordings_of c ds1 = compressed_for c segs ds" by simp
    with ingestRecordings_other [OF d1 notin] step e show ?thesis by simp
  next
    case False
    with Cons.prems(3) entry have mem: "(c, segs) \<in> set entries" by auto
    from Cons.prems(2) have dist: "distinct (map fst entries)" by simp
    have same: "recordings_of c ds1 = recordings_of c ds"
      using ingestCameraRecordings_other [OF Cons.prems(1), of c c' segs'] False step entry by simp
    have "compressed_for c segs ds1 = compressed_for c segs ds"
      by (simp add: compressed_for_def getExisting_recordings_of same)
    with Cons.IH [OF d1 dist mem rest] step e show ?thesis by simp
  qed
qed

lemma newSegments_push_keys:
  "fst ` set (newSegments_push c segs m) = insert c (fst ` set m)"
  by (induction c segs m rule: newSegments_push.induct) auto

lemma newSegments_push_distinct:
  "distinct (map fst m) \<Longrightarrow> distinct (map fst (newSegments_push c segs m))"
proof (induction m)
  case Nil
  show ?case by simp
next
  case (Cons a m)
  obtain c' d where a: "a = (c', d)" by (cases a)
  from Cons a show ?case
    by (cases "c' = c") (simp_all add: newSegments_push_keys)
qed

lemma newSegments_push_map_of:
  "map_of (newSegments_push c segs m) =
     (map_of m)(c \<mapsto> (case map_of m c of None \<Rightarrow> segs | Some d \<Rightarrow> d @ segs))"
  by (induction m) (auto simp: fun_eq_iff)

lemma newSegments_fold_distinct:
  "distinct (map fst acc) \<Longrightarrow>
   distinct (map fst (fold (\<lambda>(cameraID, segments) newSegments.
       newSegments_push cameraID segments newSegments) results acc))"
  by (induction results arbitrary: acc) (auto simp: newSegments_push_distinct)

lemma newSegments_fold_keys:
  "fst ` set (fold (\<lambda>(cameraID, segments) newSegments.
       newSegments_push cameraID segments newSegments) results acc)
     = fst ` set acc \<union> fst ` set results"
proof (induction results arbitrary: acc)
  case Nil
  show ?case by simp
next
  case (Cons a results)
  obtain c d where a: "a = (c, d)" by (cases a)
  show ?case
    by (simp add: a Cons.IH newSegments_push_keys)
qed

lemma newSegments_fold_map_of:
  assumes "c \<in> fst ` set acc \<union> fst ` set results"
  shows "map_of (fold (\<lambda>(cameraID, segments) newSegments.
       newSegments_push cameraID segments newSegments) results acc) c
     = Some ((case map_of acc c of None \<Rightarrow> [] | Some d \<Rightarrow> d) @ segments_for c results)"
  using assms
proof (induction results arbitrary: acc)
  case Nil
  then obtain d where "map_of acc c = Some d"
    by (metis Un_empty_right domD dom_map_of_conv_image_fst image_empty list.set(1))
  then show ?case by (simp add: segments_for_def)
next
  case (Cons a results)
  obtain c' d where a: "a = (c', d)" by (cases a)
  have mem: "c \<in> fst ` set (newSegments_push c' d acc) \<union> fst ` set results"
    using Cons.prems a by (auto simp: newSegments_push_keys)
  have seg: "segments_for c ((k, segs) # results)
      = (if k = c then segs else []) @ segments_for c results" for k segs
    by (simp add: segments_for_def)
  show ?case
  proof (cases "c' = c")
    case True
    with Cons.IH [OF mem] show ?thesis
      by (simp add: a seg newSegments_push_map_of split: option.splits)
  next
    case False
    with Cons.IH [OF mem] show ?thesis
      by (simp add: a seg newSegments_push_map_of)
  qed
qed

lemma newSegments_of_distinct: "distinct (map fst (newSegments_of results))"
  unfolding newSegments_of_def by (rule newSegments_fold_distinct) simp

lemma newSegments_of_keys: "fst ` set (newSegments_of results) = fst ` set results"
  unfolding newSegments_of_def by (simp add: newSegments_fold_keys)

lemma newSegments_of_entry:
  assumes "c \<in> fst ` set results"
  shows "(c, segments_for c results) \<in> set (newSegments_of results)"
proof -
  from assms have "map_of (newSegments_of results) c = Some (segments_for c results)"
    unfolding newSegments_of_def by (simp add: newSegments_fold_map_of)
  then show ?thesis by (rule map_of_SomeD)
qed

lemma range_covers_trans:
  "range_start a \<le> range_start b \<Longrightarrow> range_end b \<le> range_end a
    \<Longrightarrow> range_covers b q \<Longrightarrow> range_covers a q"
  by (simp add: range_covers_def)

lemma MemoryRangeSet_add_covers:
  "range_covers r q \<Longrightarrow> MemoryRangeSet_hasCoverage (MemoryRangeSet_add r rs) q"
proof (induction rs arbitrary: r)
  case Nil
  then show ?case by (simp add: MemoryRangeSet_hasCoverage_def)
next
  case (Cons x xs)
  let ?m = "\<lparr>range_start = min (range_start r) (range_start x),
             range_end = max (range_end r) (range_end x)\<rparr>"
  have "range_covers ?m q"
    using Cons.prems by (auto simp: range_covers_def)
  from Cons.IH [OF this] Cons.IH [OF Cons.prems] Cons.prems show ?case
    by (simp add: MemoryRangeSet_hasCoverage_def)
qed

lemma expiring_insert_covers:
  "range_covers r q \<Longrightarrow> t < expires r \<Longrightarrow>
   list_ex (\<lambda>stored. range_covers stored q) (expireOldRanges t (expiring_insert r rs))"
proof (induction rs arbitrary: r)
  case Nil
  then show ?case by (simp add: expireOldRanges_def)
next
  case (Cons x xs)
  let ?m = "\<lparr>range_start = min (range_start r) (range_start x),
             range_end = max (range_end r) (range_end x),
             expires = max (expires r) (expires x)\<rparr>"
  have "range_covers ?m q" "t < expires ?m"
    using Cons.prems by (auto simp: range_covers_def)
  from Cons.IH [OF this] Cons.IH [OF Cons.prems] Cons.prems show ?case
    by (simp add: expireOldRanges_def)
qed

lemma ExpiringMemoryRangeSet_add_covers:
  "range_covers r q \<Longrightarrow> t < expires r \<Longrightarrow>
   fst (ExpiringMemoryRangeSet_hasCoverage t (ExpiringMemoryRangeSet_add t' r rs) q)"
  by (simp add: ExpiringMemoryRangeSet_hasCoverage_def ExpiringMemoryRangeSet_add_def
      expiring_insert_covers)

lemma expireOldRanges_idem: "expireOldRanges t (expireOldRanges t rs) = expireOldRanges t rs"
  by (simp add: expireOldRanges_def)

lemma convertRange_start_le:
  "range_start (convertRangeToCacheFriendlyTimes now w endCap) \<le> range_start w"
proof -
  have "startOfHour (range_start w) \<le> range_start w" "startOfDay (range_start w) \<le> range_start w"
    by (simp_all add: startOfHour_def startOfDay_def)
  then show ?thesis
    by (simp add: convertRangeToCacheFriendlyTimes_def Let_def)
qed

lemma convertRange_end_ge:
  "capEndDate now (range_end w) \<le> range_end (convertRangeToCacheFriendlyTimes now w True)"
proof -
  have m: "range_end w mod 3600000 < 3600000" "range_end w mod 86400000 < 86400000"
    "now mod 60000 < 60000"
    by simp_all
  have e: "range_end w \<le> range_end (convertRangeToCacheFriendlyTimes now w False)"
  proof (cases "startOfHour (range_start w) = startOfHour (range_end w)")
    case True
    then have "range_end (convertRangeToCacheFriendlyTimes now w False)
        = startOfHour (range_end w) + 3599999"
      by (simp add: convertRangeToCacheFriendlyTimes_def Let_def endOfHour_def)
    with m show ?thesis
      by (simp add: startOfHour_def)
  next
    case False
    with m show ?thesis
      by (simp add: convertRangeToCacheFriendlyTimes_def Let_def endOfDay_def startOfDay_def)
  qed
  show ?thesis
  proof (cases "now < range_end (convertRangeToCacheFriendlyTimes now w False)")
    case True
    then have "range_end (convertRangeToCacheFriendlyTimes now w True) = endOfMinute now"
      by (simp add: convertRangeToCacheFriendlyTimes_def Let_def)
    moreover have "now \<le> endOfMinute now"
      using m by (simp add: endOfMinute_def)
    ultimately show ?thesis
      by (simp add: capEndDate_def)
  next
    case False
    then have "range_end (convertRangeToCacheFriendlyTimes now w True)
        = range_end (convertRangeToCacheFriendlyTimes now w False)"
      by (simp add: convertRangeToCacheFriendlyTimes_def Let_def)
    with e show ?thesis
      by (simp add: capEndDate_def)
  qed
qed

lemma quantized_covers_later_check:
  assumes "t0 \<le> t2" "t2 < t0 + 30000"
  shows "range_covers (convertRangeToCacheFriendlyTimes t0 w True)
           \<lparr>range_start = range_start w, range_end = capEndDate t2 (range_end w) - 30000\<rparr>"
proof -
  have "capEndDate t2 (range_end w) - 30000 \<le> capEndDate t0 (range_end w)"
    using assms by (simp add: capEndDate_def)
  with convertRange_end_ge [of t0 w] convertRange_start_le [of t0 w True]
  show ?thesis by (simp add: range_covers_def)
qed

lemma refresh_event_queries_empty_iff:
  "result_event_queries (refresh env s window) = []
      \<longleftrightarrow> fst (ExpiringMemoryRangeSet_hasCoverage (now_called env) (eventRanges s)
              \<lparr>range_start = range_start window,
               range_end = capEndDate (now_called env) (range_end window) - 30000\<rparr>)"
  by (simp add: refresh_event_queries refreshEvents_start_fst)

lemma refresh_recording_queries_empty_iff:
  "result_recording_queries (refresh env s window) = []
      \<longleftrightarrow> MemoryRangeSet_hasCoverage (recordingRanges s)
              \<lparr>range_start = range_start window,
               range_end = capEndDate (now_called env) (range_end window) - 30000\<rparr>"
  by (simp add: refresh_recording_queries refreshRecordings_start_eq)

lemma refresh_eventRanges_skipped:
  assumes "result_event_queries (refresh env s window) = []"
  shows "eventRanges (result_state (refresh env s window))
           = expireOldRanges (now_called env) (eventRanges s)"
proof -
  from assms have "fst (refreshEvents_start env s window) = None"
    by (simp add: refresh_event_queries split: option.splits)
  then show ?thesis
    by (simp add: refresh_def Let_def refreshEvents_start_snd resumeEvents_def
        resumeRecordings_frame)
qed

lemma refresh_recordingRanges_skipped:
  assumes "result_recording_queries (refresh env s window) = []"
  shows "recordingRanges (result_state (refresh env s window)) = recordingRanges s"
proof -
  from assms have "refreshRecordings_start env s window = None"
    by (simp add: refresh_recording_queries split: option.splits)
  then show ?thesis
    by (simp add: refresh_def Let_def refreshEvents_start_snd refreshRecordings_start_eventRanges
        resumeRecordings_def resumeEvents_frame)
qed

lemma refresh_both_skipped:
  assumes "result_event_queries (refresh env s window) = []"
    and "result_recording_queries (refresh env s window) = []"
  shows "result_state (refresh env s window)
           = s\<lparr>eventRanges := expireOldRanges (now_called env) (eventRanges s)\<rparr>"
proof -
  from assms have "fst (refreshEvents_start env s window) = None"
    "refreshRecordings_start env s window = None"
    by (simp_all add: refresh_event_queries refresh_recording_queries split: option.splits)
  then show ?thesis
    by (simp add: refresh_def Let_def refreshEvents_start_snd refreshRecordings_start_eventRanges
        resumeRecordings_def resumeEvents_def)
qed

lemma refresh_eventRanges_fetched:
  assumes a: "result_event_queries (refresh env s window) \<noteq> []"
      "result_events (refresh env s window) = Resolved"
    and cfw: "cfw = convertRangeToCacheFriendlyTimes (now_called env) window True"
  shows "eventRanges (result_state (refresh env s window)) =
              ExpiringMemoryRangeSet_add (now_events_resumed env)
                \<lparr>range_start = range_start cfw, range_end = range_end cfw,
                 expires = now_events_resumed env + 30000\<rparr>
                (expireOldRanges (now_called env) (eventRanges s))"
proof -
  let ?s1 = "s\<lparr>eventRanges := expireOldRanges (now_called env) (eventRanges s)\<rparr>"
  let ?pr = "refreshRecordings_start env s window"
  from a have pe: "fst (refreshEvents_start env s window) = Some cfw"
    by (simp add: refresh_event_queries refreshEvents_start_fst cfw split: if_splits)
  have indep: "eventRanges (snd (resumeEvents env (Some cfw) (snd (resumeRecordings env ?pr ?s1))))
        = eventRanges (snd (resumeEvents env (Some cfw) ?s1))"
      "fst (resumeEvents env (Some cfw) (snd (resumeRecordings env ?pr ?s1)))
        = fst (resumeEvents env (Some cfw) ?s1)"
    by (rule resumeEvents_eventRanges_indep; simp add: resumeRecordings_frame)+
  from a pe indep have ok: "fst (resumeEvents env (Some cfw) ?s1) = Resolved"
    by (simp add: refresh_def Let_def refreshEvents_start_snd refreshRecordings_start_eventRanges
        split: if_splits)
  have "eventRanges (result_state (refresh env s window))
      = eventRanges (snd (resumeEvents env (Some cfw) ?s1))"
    using pe indep
    by (simp add: refresh_def Let_def refreshEvents_start_snd refreshRecordings_start_eventRanges
        resumeRecordings_frame)
  with resumeEvents_resolved [OF ok] show ?thesis
    by simp
qed

lemma refresh_recordingRanges_fetched:
  assumes a: "result_recording_queries (refresh env s window) \<noteq> []"
      "result_recordings (refresh env s window) = Resolved"
    and cfw: "cfw = convertRangeToCacheFriendlyTimes (now_called env) window True"
  shows "recordingRanges (result_state (refresh env s window))
           = MemoryRangeSet_add cfw (recordingRanges s)"
proof -
  let ?s1 = "s\<lparr>eventRanges := expireOldRanges (now_called env) (eventRanges s)\<rparr>"
  let ?pe = "fst (refreshEvents_start env s window)"
  from a have pr: "refreshRecordings_start env s window = Some cfw"
    by (simp add: refresh_recording_queries refreshRecordings_start_eq cfw split: if_splits)
  show ?thesis
  proof (cases "events_settle_first env")
    case True
    with a pr have ok: "fst (resumeRecordings env (Some cfw) (snd (resumeEvents env ?pe ?s1))) = Resolved"
      by (simp add: refresh_def Let_def refreshEvents_start_snd refreshRecordings_start_eventRanges)
    from True pr have "recordingRanges (result_state (refresh env s window))
        = recordingRanges (snd (resumeRecordings env (Some cfw) (snd (resumeEvents env ?pe ?s1))))"
      by (simp add: refresh_def Let_def refreshEvents_start_snd refreshRecordings_start_eventRanges)
    with resumeRecordings_resolved [OF ok] show ?thesis
      by (simp add: resumeEvents_frame)
  next
    case False
    with a pr have ok: "fst (resumeRecordings env (Some cfw) ?s1) = Resolved"
      by (simp add: refresh_def Let_def refreshEvents_start_snd refreshRecordings_start_eventRanges)
    from False pr have "recordingRanges (result_state (refresh env s window))
        = recordingRanges (snd (resumeRecordings env (Some cfw) ?s1))"
      by (simp add: refresh_def Let_def refreshEvents_start_snd refreshRecordings_start_eventRanges
          resumeEvents_frame)
    with resumeRecordings_resolved [OF ok] show ?thesis
      by simp
  qed
qed

lemma is_duplicate_refl: "is_duplicate a a"
  by (simp add: is_duplicate_def split: option.splits)

lemma is_duplicate_sym: "is_duplicate a b \<Longrightarrow> is_duplicate b a"
  by (auto simp: is_duplicate_def split: option.splits)

lemma is_duplicate_trans: "is_duplicate a b \<Longrightarrow> is_duplicate b c \<Longrightarrow> is_duplicate a c"
  by (auto simp: is_duplicate_def split: option.splits)

lemma collapse_duplicates_subset: "set (collapse_duplicates xs) \<subseteq> set xs"
  by (induction xs rule: collapse_duplicates.induct) auto

lemma collapse_duplicates_sorted_wrt:
  "sorted_wrt P xs \<Longrightarrow> sorted_wrt P (collapse_duplicates xs)"
proof (induction xs rule: collapse_duplicates.induct)
  case 1
  show ?case by simp
next
  case (2 x xs)
  from "2.prems" have "sorted_wrt P (filter (\<lambda>y. \<not> is_duplicate x y) xs)"
    by (simp add: sorted_wrt_filter)
  from "2.IH" [OF this] "2.prems" collapse_duplicates_subset [of "filter (\<lambda>y. \<not> is_duplicate x y) xs"]
  show ?case by auto
qed

lemma collapse_duplicates_no_duplicates:
  "sorted_wrt (\<lambda>a b. \<not> is_duplicate a b) (collapse_duplicates xs)"
proof (induction xs rule: collapse_duplicates.induct)
  case 1
  show ?case by simp
next
  case (2 x xs)
  with collapse_duplicates_subset [of "filter (\<lambda>y. \<not> is_duplicate x y) xs"]
  show ?case by auto
qed

lemma collapse_duplicates_represents:
  "m \<in> set xs \<Longrightarrow> \<exists>kept\<in>set (collapse_duplicates xs). is_duplicate kept m"
proof (induction xs rule: collapse_duplicates.induct)
  case 1
  then show ?case by simp
next
  case (2 x xs)
  show ?case
  proof (cases "is_duplicate x m")
    case True
    then show ?thesis by auto
  next
    case False
    with "2.prems" is_duplicate_refl [of m] have "m \<in> set (filter (\<lambda>y. \<not> is_duplicate x y) xs)"
      by auto
    from "2.IH" [OF this] show ?thesis by auto
  qed
qed

lemma find_filter_duplicates:
  assumes "\<not> is_duplicate x kept"
  shows "find (is_duplicate kept) (filter (\<lambda>y. \<not> is_duplicate x y) xs) = find (is_duplicate kept) xs"
proof (induction xs)
  case Nil
  show ?case by simp
next
  case (Cons a xs)
  have "\<not> is_duplicate kept a" if "is_duplicate x a"
    using that assms is_duplicate_trans [of x a kept] is_duplicate_sym [of kept a] by blast
  with Cons show ?case by auto
qed

lemma collapse_duplicates_first:
  "kept \<in> set (collapse_duplicates xs) \<Longrightarrow> find (is_duplicate kept) xs = Some kept"
proof (induction xs rule: collapse_duplicates.induct)
  case 1
  then show ?case by simp
next
  case (2 x xs)
  show ?case
  proof (cases "kept = x")
    case True
    then show ?thesis by (simp add: is_duplicate_refl)
  next
    case False
    with "2.prems" have mem: "kept \<in> set (collapse_duplicates (filter (\<lambda>y. \<not> is_duplicate x y) xs))"
      by simp
    with collapse_duplicates_subset [of "filter (\<lambda>y. \<not> is_duplicate x y) xs"]
    have nd: "\<not> is_duplicate x kept" by auto
    then have "\<not> is_duplicate kept x" using is_duplicate_sym by blast
    with "2.IH" [OF mem] find_filter_duplicates [OF nd, of xs] show ?thesis by simp
  qed
qed

lemma media_sort_key_le:
  "media_sort_key a \<le> media_sort_key b \<Longrightarrow> media_before_or_equal a b"
  by (auto simp: media_sort_key_def media_before_or_equal_def less_eq_prod_def
      split: option.splits)

lemma sort_key_media_sorted:
  "sorted_wrt media_before_or_equal (sort_key media_sort_key ms)"
proof -
  have "sorted (map media_sort_key (sort_key media_sort_key ms))"
    by (rule sorted_sort_key)
  then have "sorted_wrt (\<lambda>a b. media_sort_key a \<le> media_sort_key b) (sort_key media_sort_key ms)"
    by (simp add: sorted_map)
  then show ?thesis
    by (rule sorted_wrt_mono_rel [rotated]) (simp add: media_sort_key_le)
qed

text \<open>The tests of the repository and the examples of the spec, on the modelled parts.\<close>

lemma capEndDate_test_cap:
  "capEndDate (test_day 14 25 0 0) (test_day 15 2 0 0) = test_day 14 25 0 0"
  by (simp add: capEndDate_def test_day_def)

lemma capEndDate_test_no_cap:
  "capEndDate (test_day 14 25 0 0) (test_day 14 24 0 0) = test_day 14 24 0 0"
  by (simp add: capEndDate_def test_day_def)

lemma compressRanges_example_separate:
  "compressRanges [range_item 0 10, range_item 12 20] 1 = [range_item 0 10, range_item 12 20]"
  by (simp add: compressRanges_def range_item_def)

lemma compressRanges_example_merged:
  "compressRanges [range_item 0 10, range_item 12 20] 3 = [range_item 0 20]"
  by (simp add: compressRanges_def range_item_def)

lemma MemoryRangeSet_add_bridges:
  "MemoryRangeSet_add \<lparr>range_start = 10, range_end = 20\<rparr>
     [\<lparr>range_start = 0, range_end = 10\<rparr>, \<lparr>range_start = 20, range_end = 30\<rparr>]
   = [\<lparr>range_start = 0, range_end = 30\<rparr>]"
  by simp

lemma convertRange_test_within_hour:
  "convertRangeToCacheFriendlyTimes now
     \<lparr>range_start = test_day 14 1 2 0, range_end = test_day 14 11 3 0\<rparr> False
   = \<lparr>range_start = test_day 14 0 0 0, range_end = test_day 14 59 59 999\<rparr>"
  by (simp add: convertRangeToCacheFriendlyTimes_def test_day_def startOfHour_def endOfHour_def)

lemma convertRange_test_within_day:
  "convertRangeToCacheFriendlyTimes now
     \<lparr>range_start = test_day 14 1 2 0, range_end = test_day 15 11 3 0\<rparr> False
   = \<lparr>range_start = test_day 0 0 0 0, range_end = test_day 23 59 59 999\<rparr>"
  by (simp add: convertRangeToCacheFriendlyTimes_def test_day_def startOfHour_def
      startOfDay_def endOfDay_def)

lemma covered_source_skips:
  "result_event_queries (refresh example_env covered_source past_window) = []"
  "result_recording_queries (refresh example_env covered_source past_window) = []"
  by (simp_all add: refresh_defs clock_defs tracker_defs example_defs Let_def)

lemma example_refresh_outcome:
  "result_events (refresh example_env fresh_source example_window) = Resolved"
  "result_recordings (refresh example_env fresh_source example_window) = Resolved"
  "result_event_queries (refresh example_env fresh_source example_window) \<noteq> []"
  "result_recording_queries (refresh example_env fresh_source example_window) \<noteq> []"
  by (simp_all add: refresh_defs clock_defs tracker_defs ingest_defs example_defs Let_def)

lemma example_cfw:
  "convertRangeToCacheFriendlyTimes (now_called example_env) example_window True
      = \<lparr>range_start = test_day 14 0 0 0, range_end = test_day 14 25 59 999\<rparr>"
  by (simp add: clock_defs example_defs Let_def)

lemma example_ingestRecordings:
  "ingestRecordings (newSegments_of example_segments) [] =
     (None, [\<lparr>item_id = ''recording-camera-1-1'', item_group = ''camera-1'', item_content = [],
              item_start = test_day 14 0 0 0, item_end = Some (test_day 14 0 20 0),
              item_type = TypeBackground, item_media = None\<rparr>])"
  by (simp add: ingest_defs example_defs test_day_def Let_def)

lemma source_with_recordings_resume:
  "refreshRecordings_resume example_env example_cache_friendly_window source_with_recordings =
     (Resolved,
      source_with_recordings
        \<lparr>dataset :=
           [\<lparr>item_id = ''recording-camera-2-7'', item_group = ''camera-2'', item_content = [],
             item_start = test_day 13 0 0 0, item_end = Some (test_day 13 5 0 0),
             item_type = TypeBackground, item_media = None\<rparr>,
            \<lparr>item_id = ''recording-camera-1-0'', item_group = ''camera-1'', item_content = [],
             item_start = test_day 13 59 30 0, item_end = Some (test_day 14 0 20 0),
             item_type = TypeBackground, item_media = None\<rparr>],
         recordingRanges := [example_cache_friendly_window]\<rparr>)"
  by (simp add: refreshRecordings_resume_def getRecordingSegmentsQueries_def ingest_defs
      example_defs test_day_def Let_def)

lemma expireOldRanges_later:
  "t0 \<le> t \<Longrightarrow> expireOldRanges t (expireOldRanges t0 rs) = expireOldRanges t rs"
  unfolding expireOldRanges_def filter_filter by (rule filter_cong) auto

lemma DataSet_update_ids:
  "map item_id (DataSet_update u ds) =
     (if item_id u \<in> set (map item_id ds) then map item_id ds else map item_id ds @ [item_id u])"
  by (induction ds) (auto simp: merge_item_def)

lemma ingestEventMedia_distinct:
  "distinct (map item_id ds) \<Longrightarrow> distinct (map item_id (ingestEventMedia media ds))"
  by (simp add: ingestEventMedia_def DataSet_update_ids split: option.splits)

lemma fold_ingestEventMedia_distinct:
  "distinct (map item_id ds) \<Longrightarrow> distinct (map item_id (fold ingestEventMedia ms ds))"
  by (induction ms arbitrary: ds) (simp_all add: ingestEventMedia_distinct)

lemma resumeEvents_distinct:
  "distinct (map item_id (dataset st)) \<Longrightarrow>
   distinct (map item_id (dataset (snd (resumeEvents env p st))))"
  by (simp add: resumeEvents_def refreshEvents_resume_def fold_ingestEventMedia_distinct
      split: option.splits sum.splits)

lemma resumeRecordings_distinct:
  assumes "distinct (map item_id (dataset st))"
  shows "distinct (map item_id (dataset (snd (resumeRecordings env p st))))"
proof (cases p)
  case None
  with assms show ?thesis by (simp add: resumeRecordings_def)
next
  case (Some cfw)
  show ?thesis
  proof (cases "getRecordingSegments env (getRecordingSegmentsQueries st cfw)")
    case (Inl e)
    with Some assms show ?thesis
      by (simp add: resumeRecordings_def refreshRecordings_resume_def)
  next
    case (Inr results)
    have "dataset (snd (resumeRecordings env p st))
        = snd (ingestRecordings (newSegments_of results) (dataset st))"
      using Some Inr
      by (simp add: resumeRecordings_def refreshRecordings_resume_def
          split: prod.splits option.splits)
    with ingestRecordings_distinct [OF assms] show ?thesis by simp
  qed
qed

lemma refresh_keeps_ids_distinct:
  assumes "distinct (map item_id (dataset s))"
  shows "distinct (map item_id (dataset (result_state (refresh env s window))))"
proof -
  let ?s1 = "snd (refreshEvents_start env s window)"
  from assms have "distinct (map item_id (dataset ?s1))"
    by (simp add: refreshEvents_start_snd)
  then show ?thesis
    by (simp add: refresh_def Let_def resumeEvents_distinct resumeRecordings_distinct)
qed

lemma sortMedia_test_sorted: "sortMedia [media_1, media_2] = [media_1, media_2]"
  by (simp add: sortMedia_def media_sort_key_def is_duplicate_def media_1_def media_2_def
      test_day_def)

lemma sortMedia_test_unsorted: "sortMedia [media_2, media_1] = [media_1, media_2]"
  by (simp add: sortMedia_def media_sort_key_def is_duplicate_def media_1_def media_2_def
      test_day_def)

lemma sortMedia_test_duplicate_id:
  "sortMedia [media_1, media_2, media_3_dup_id] = [media_1, media_2]"
  by (simp add: sortMedia_def media_sort_key_def is_duplicate_def media_1_def media_2_def
      media_3_dup_id_def test_day_def)

lemma sortMedia_test_by_id:
  "sortMedia [media_named ''snake'', media_named ''zebra'', media_named ''aardvark'']
     = [media_named ''aardvark'', media_named ''snake'', media_named ''zebra'']"
  by (simp add: sortMedia_def media_sort_key_def is_duplicate_def media_named_def
      less_eq_option_def less_option_def)

lemma sortMedia_test_no_id:
  "sortMedia [media_1, media_2, media_4_no_id, media_4_no_id] = [media_1, media_2, media_4_no_id]"
  by (simp add: sortMedia_def media_sort_key_def is_duplicate_def media_1_def media_2_def
      media_4_no_id_def test_day_def)

lemma replay_calls_append:
  "replay_calls (xs @ ys) ds =
     (case replay_calls xs ds of
        (Some e, ds1) \<Rightarrow> (Some e, ds1)
      | (None, ds1) \<Rightarrow> replay_calls ys ds1)"
proof (induction xs arbitrary: ds)
  case Nil
  show ?case by simp
next
  case (Cons call xs)
  show ?case
  proof (cases call)
    case (RemoveCall items)
    with Cons.IH show ?thesis by simp
  next
    case (AddCall items)
    with Cons.IH show ?thesis
      by (cases "DataSet_add items ds") (auto split: option.splits)
  qed
qed

lemma replay_ingestCameraRecordings_calls:
  "replay_calls (ingestCameraRecordings_calls entry ds) ds = ingestCameraRecordings entry ds"
  by (cases "ingestCameraRecordings entry ds")
     (auto simp: ingestCameraRecordings_calls_def ingestCameraRecordings_def Let_def
        addRecordings_def deleteRecordingsForCameraID_def split: option.splits)

lemma replay_ingestRecordings_calls:
  "replay_calls (ingestRecordings_calls entries ds) ds = ingestRecordings entries ds"
proof (induction entries arbitrary: ds)
  case Nil
  show ?case by simp
next
  case (Cons entry entries)
  obtain e ds1 where step: "ingestCameraRecordings entry ds = (e, ds1)"
    by (cases "ingestCameraRecordings entry ds")
  show ?case
  proof (cases e)
    case None
    with step Cons.IH [of ds1] show ?thesis
      by (simp add: replay_calls_append replay_ingestCameraRecordings_calls)
  next
    case (Some err)
    with step show ?thesis
      by (simp add: replay_calls_append replay_ingestCameraRecordings_calls)
  qed
qed

lemma ingestCameraRecordings_calls_eq:
  "ingestCameraRecordings_calls (c, segs) ds =
     [RemoveCall (recordings_of c ds), AddCall (compressed_for c segs ds)]"
  by (simp add: ingestCameraRecordings_calls_def Let_def recordings_of_def compressed_for_def)

lemma recordings_of_fields:
  "\<forall>x\<in>set (recordings_of c ds). item_group x = c \<and> item_type x = TypeBackground \<and> x \<in> set ds"
  by (simp add: recordings_of_def DataSet_get_def)

lemma ingestCameraRecordings_calls_group:
  assumes "call \<in> set (ingestCameraRecordings_calls (c, segs) ds)" "item \<in> set (call_items call)"
  shows "item_group item = c \<and> item_type item = TypeBackground"
  using assms recordings_of_fields [of c ds] compressed_for_fields [of c segs ds]
  by (auto simp: ingestCameraRecordings_calls_eq)

lemma ingestRecordings_calls_group:
  assumes "call \<in> set (ingestRecordings_calls entries ds)" "item \<in> set (call_items call)"
  shows "item_group item \<in> fst ` set entries \<and> item_type item = TypeBackground"
  using assms
proof (induction entries arbitrary: ds)
  case Nil
  then show ?case by simp
next
  case (Cons entry entries)
  obtain c segs where entry: "entry = (c, segs)" by (cases entry)
  from Cons.prems(1) consider
      (here) "call \<in> set (ingestCameraRecordings_calls entry ds)"
    | (later) ds1 where "call \<in> set (ingestRecordings_calls entries ds1)"
    by (auto split: prod.splits option.splits)
  then show ?case
  proof cases
    case here
    with ingestCameraRecordings_calls_group [of call c segs ds item] Cons.prems(2) entry
    show ?thesis by simp
  next
    case later
    from Cons.IH [OF later Cons.prems(2)] show ?thesis by simp
  qed
qed

lemma ingestRecordings_calls_removed:
  assumes "distinct (map item_id ds)" "c \<notin> fst ` set entries"
    and "call \<in> set (ingestRecordings_calls entries ds)" "item \<in> set (removed_items call)"
    and "kept \<in> set (recordings_of c ds)"
  shows "item_id item \<noteq> item_id kept"
  using assms
proof (induction entries arbitrary: ds)
  case Nil
  then show ?case by simp
next
  case (Cons entry entries)
  obtain c' segs where entry: "entry = (c', segs)" by (cases entry)
  with Cons.prems(2) have ne: "c \<noteq> c'" and notin: "c \<notin> fst ` set entries" by auto
  obtain e ds0 where step: "ingestCameraRecordings entry ds = (e, ds0)"
    by (cases "ingestCameraRecordings entry ds")
  from Cons.prems(3) step consider
      (here) "call \<in> set (ingestCameraRecordings_calls entry ds)"
    | (later) ds1 where "ingestCameraRecordings entry ds = (None, ds1)"
        "call \<in> set (ingestRecordings_calls entries ds1)"
    by (cases e) auto
  then show ?case
  proof cases
    case here
    with Cons.prems(4) entry have "item \<in> set (recordings_of c' ds)"
      by (auto simp: ingestCameraRecordings_calls_eq)
    with recordings_of_fields [of c' ds] have i: "item \<in> set ds" "item_group item = c'"
      by auto
    from Cons.prems(5) recordings_of_fields [of c ds] have k: "kept \<in> set ds" "item_group kept = c"
      by auto
    from i k ne have "item \<noteq> kept" by auto
    moreover from Cons.prems(1) have "inj_on item_id (set ds)"
      by (simp add: distinct_map)
    ultimately show ?thesis using i(1) k(1) by (auto dest: inj_onD)
  next
    case later
    have d1: "distinct (map item_id ds1)"
      using ingestCameraRecordings_distinct [OF Cons.prems(1), of entry] later(1) by simp
    have "recordings_of c ds1 = recordings_of c ds"
      using ingestCameraRecordings_other [OF Cons.prems(1) ne, of segs] later(1) entry by simp
    with Cons.prems(5) have "kept \<in> set (recordings_of c ds1)" by simp
    from Cons.IH [OF d1 notin later(2) Cons.prems(4) this] show ?thesis .
  qed
qed

section \<open>The coverage check\<close>

text \<open>
  C1 (as stated): for every refresh with visible window \<open>W\<close>, each leg asks its tracker
  whether the range from \<open>W.start\<close> to now minus the freshness tolerance is covered, and
  skips its fetch exactly when the tracker answers true. The code subtracts the tolerance
  from \<^verbatim>\<open>capEndDate(window.end)\<close>, the earlier of the window's end and now. With the clock at
  14:25:00, the window 10:01:02 to 10:11:03 and both trackers holding the hour 10:00:00.000
  to 10:59:59.999, both legs skip their fetch, although neither tracker covers the range
  from 10:01:02 to 14:24:30.
\<close>

theorem refresh_coverage_check_not_up_to_now:
  "result_event_queries (refresh example_env covered_source past_window) = []
   \<and> result_recording_queries (refresh example_env covered_source past_window) = []
   \<and> \<not> fst (ExpiringMemoryRangeSet_hasCoverage (now_called example_env)
              (eventRanges covered_source)
              \<lparr>range_start = range_start past_window,
               range_end = now_called example_env - 30000\<rparr>)
   \<and> \<not> MemoryRangeSet_hasCoverage (recordingRanges covered_source)
              \<lparr>range_start = range_start past_window,
               range_end = now_called example_env - 30000\<rparr>"
  by (simp add: covered_source_skips)
     (simp add: clock_defs tracker_defs example_defs Let_def)

text \<open>
  C1 (amended): for every refresh with visible window \<open>W\<close>, each leg asks its tracker
  whether the range from \<open>W.start\<close> to \<^verbatim>\<open>capEndDate(W.end)\<close> minus the freshness tolerance of 30
  seconds is covered (the earlier of the window's end and now, less the tolerance), and
  sends no query to the provider exactly when the tracker answers true.
\<close>

theorem refresh_skips_iff_covered:
  "(result_event_queries (refresh env s window) = []
      \<longleftrightarrow> fst (ExpiringMemoryRangeSet_hasCoverage (now_called env) (eventRanges s)
              \<lparr>range_start = range_start window,
               range_end = sub_seconds (capEndDate (now_called env) (range_end window))
                             TIMELINE_FRESHNESS_TOLERANCE_SECONDS\<rparr>))
   \<and> (result_recording_queries (refresh env s window) = []
      \<longleftrightarrow> MemoryRangeSet_hasCoverage (recordingRanges s)
              \<lparr>range_start = range_start window,
               range_end = sub_seconds (capEndDate (now_called env) (range_end window))
                             TIMELINE_FRESHNESS_TOLERANCE_SECONDS\<rparr>)"
  by (simp add: refresh_event_queries_empty_iff refresh_recording_queries_empty_iff
      sub_seconds_def TIMELINE_FRESHNESS_TOLERANCE_SECONDS_def)

theorem refresh_skips_iff_covered_witness:
  "result_event_queries (refresh example_env covered_source past_window) = []
   \<and> result_recording_queries (refresh example_env covered_source past_window) = []
   \<and> result_event_queries (refresh example_env fresh_source past_window) \<noteq> []
   \<and> result_recording_queries (refresh example_env fresh_source past_window) \<noteq> []"
proof -
  have c: "fst (ExpiringMemoryRangeSet_hasCoverage (now_called example_env)
              (eventRanges covered_source)
              \<lparr>range_start = range_start past_window,
               range_end = sub_seconds (capEndDate (now_called example_env) (range_end past_window))
                             TIMELINE_FRESHNESS_TOLERANCE_SECONDS\<rparr>)"
    "MemoryRangeSet_hasCoverage (recordingRanges covered_source)
              \<lparr>range_start = range_start past_window,
               range_end = sub_seconds (capEndDate (now_called example_env) (range_end past_window))
                             TIMELINE_FRESHNESS_TOLERANCE_SECONDS\<rparr>"
    by (simp_all add: clock_defs tracker_defs example_defs Let_def)
  have n: "\<not> fst (ExpiringMemoryRangeSet_hasCoverage (now_called example_env)
              (eventRanges fresh_source)
              \<lparr>range_start = range_start past_window,
               range_end = sub_seconds (capEndDate (now_called example_env) (range_end past_window))
                             TIMELINE_FRESHNESS_TOLERANCE_SECONDS\<rparr>)"
    "\<not> MemoryRangeSet_hasCoverage (recordingRanges fresh_source)
              \<lparr>range_start = range_start past_window,
               range_end = sub_seconds (capEndDate (now_called example_env) (range_end past_window))
                             TIMELINE_FRESHNESS_TOLERANCE_SECONDS\<rparr>"
    by (simp_all add: tracker_defs example_defs Let_def)
  from refresh_skips_iff_covered [of example_env covered_source past_window]
    refresh_skips_iff_covered [of example_env fresh_source past_window] c n
  show ?thesis by blast
qed

section \<open>Failures\<close>

text \<open>
  C2: for every window, every state and every behaviour of the provider, also with both
  legs throwing, the promise that \<^verbatim>\<open>refresh\<close> returns resolves: a rejection of either leg is
  caught and logged, and the console stays empty exactly when both legs resolved.
\<close>

theorem refresh_never_rejects:
  "result_promise (refresh env s window) = Resolved
   \<and> (result_console (refresh env s window) = []
        \<longleftrightarrow> result_events (refresh env s window) = Resolved
            \<and> result_recordings (refresh env s window) = Resolved)"
proof -
  let ?r = "refresh env s window"
  have p: "result_promise ?r = Resolved"
    by (simp add: refresh_def Let_def split: promise.splits)
  have c: "result_console ?r =
      (case (if events_settle_first env
             then Promise_all (result_events ?r) (result_recordings ?r)
             else Promise_all (result_recordings ?r) (result_events ?r)) of
         Rejected e \<Rightarrow> [e] | Resolved \<Rightarrow> [])"
    by (simp add: refresh_def Let_def)
  have "result_console ?r = []
      \<longleftrightarrow> result_events ?r = Resolved \<and> result_recordings ?r = Resolved"
    unfolding c
    by (cases "result_events ?r"; cases "result_recordings ?r")
       (simp_all add: Promise_all_def)
  with p show ?thesis by simp
qed

theorem refresh_never_rejects_witness:
  "result_promise (refresh both_failing_env fresh_source example_window) = Resolved
   \<and> result_events (refresh both_failing_env fresh_source example_window) = Rejected FetchError
   \<and> result_recordings (refresh both_failing_env fresh_source example_window) = Rejected FetchError
   \<and> result_console (refresh both_failing_env fresh_source example_window) \<noteq> []"
proof -
  have "result_events (refresh both_failing_env fresh_source example_window) = Rejected FetchError"
    "result_recordings (refresh both_failing_env fresh_source example_window) = Rejected FetchError"
    by (simp_all add: refresh_defs clock_defs tracker_defs example_defs both_failing_env_def Let_def)
  with refresh_never_rejects [of both_failing_env fresh_source example_window]
  show ?thesis by simp
qed

text \<open>
  C3: in a refresh cycle where both legs fetch, one fetch fails and the other leg succeeds,
  the successful leg's items and coverage are recorded and nothing is recorded for the
  failed leg. When the events fetch fails and the recordings leg succeeds, the collection
  is the result of the recordings ingestion, the recordings tracker gains the cache
  friendly window, and the events tracker is what it was, less the entries that the
  coverage check pruned as expired: it answers every later coverage question as before
  (and is empty if it was). When the recordings fetch fails and the events fetch returns,
  the collection is the result of the events ingestion, the events tracker gains the
  window, and the recordings tracker is unchanged.
\<close>

theorem refresh_partial_failure:
  assumes r: "r = refresh env s window"
    and cfw: "cfw = convertRangeToCacheFriendlyTimes (now_called env) window True"
    and fetchE: "result_event_queries r \<noteq> []"
    and fetchR: "result_recording_queries r \<noteq> []"
  shows "(executeMediaQuery env (getTimelineEventQueries s cfw) = Inl e
          \<and> getRecordingSegments env (getRecordingSegmentsQueries s cfw) = Inr segments
          \<and> ingestRecordings (newSegments_of segments) (dataset s) = (None, ds)
          \<longrightarrow> result_events r = Rejected e \<and> result_recordings r = Resolved
            \<and> dataset (result_state r) = ds
            \<and> recordingRanges (result_state r) = MemoryRangeSet_add cfw (recordingRanges s)
            \<and> eventRanges (result_state r) = expireOldRanges (now_called env) (eventRanges s)
            \<and> (\<forall>t q. now_called env \<le> t \<longrightarrow>
                  fst (ExpiringMemoryRangeSet_hasCoverage t (eventRanges (result_state r)) q)
                    = fst (ExpiringMemoryRangeSet_hasCoverage t (eventRanges s) q)))
       \<and> (getRecordingSegments env (getRecordingSegmentsQueries s cfw) = Inl e
          \<and> executeMediaQuery env (getTimelineEventQueries s cfw) = Inr media
          \<longrightarrow> result_recordings r = Rejected e \<and> result_events r = Resolved
            \<and> dataset (result_state r)
                = fold ingestEventMedia (case media of None \<Rightarrow> [] | Some ms \<Rightarrow> ms) (dataset s)
            \<and> eventRanges (result_state r) =
                ExpiringMemoryRangeSet_add (now_events_resumed env)
                  \<lparr>range_start = range_start cfw, range_end = range_end cfw,
                   expires = add_seconds (now_events_resumed env)
                               TIMELINE_FRESHNESS_TOLERANCE_SECONDS\<rparr>
                  (expireOldRanges (now_called env) (eventRanges s))
            \<and> recordingRanges (result_state r) = recordingRanges s)"
proof (intro conjI impI)
  let ?s1 = "s\<lparr>eventRanges := expireOldRanges (now_called env) (eventRanges s)\<rparr>"
  from fetchE r have pe: "fst (refreshEvents_start env s window) = Some cfw"
    by (simp add: refresh_event_queries refreshEvents_start_fst cfw split: if_splits)
  from fetchR r have pr: "refreshRecordings_start env s window = Some cfw"
    by (simp add: refresh_recording_queries refreshRecordings_start_eq cfw split: if_splits)
  {
    assume a: "executeMediaQuery env (getTimelineEventQueries s cfw) = Inl e
          \<and> getRecordingSegments env (getRecordingSegmentsQueries s cfw) = Inr segments
          \<and> ingestRecordings (newSegments_of segments) (dataset s) = (None, ds)"
    then have fails: "executeMediaQuery env (getTimelineEventQueries s cfw) = Inl e" by simp
    from a have "getRecordingSegments env (getRecordingSegmentsQueries ?s1 cfw) = Inr segments"
      by (simp add: getRecordingSegmentsQueries_def)
    from resumeRecordings_fetch_ok [OF this] a
    have "refreshRecordings env ?s1 window
        = (Resolved, ?s1\<lparr>dataset := ds, recordingRanges := MemoryRangeSet_add cfw (recordingRanges s)\<rparr>)"
      by (simp add: refreshRecordings_def refreshRecordings_start_eventRanges pr resumeRecordings_def)
    with refresh_events_fetch_fails [OF pe fails] r
    show "result_events r = Rejected e" "result_recordings r = Resolved"
      "dataset (result_state r) = ds"
      "recordingRanges (result_state r) = MemoryRangeSet_add cfw (recordingRanges s)"
      and er: "eventRanges (result_state r) = expireOldRanges (now_called env) (eventRanges s)"
      by simp_all
    show "\<forall>t q. now_called env \<le> t \<longrightarrow>
                  fst (ExpiringMemoryRangeSet_hasCoverage t (eventRanges (result_state r)) q)
                    = fst (ExpiringMemoryRangeSet_hasCoverage t (eventRanges s) q)"
      by (simp add: er ExpiringMemoryRangeSet_hasCoverage_def expireOldRanges_later)
  }
  {
    assume a: "getRecordingSegments env (getRecordingSegmentsQueries s cfw) = Inl e
          \<and> executeMediaQuery env (getTimelineEventQueries s cfw) = Inr media"
    then have fails: "getRecordingSegments env (getRecordingSegmentsQueries s cfw) = Inl e" by simp
    from a have "executeMediaQuery env (getTimelineEventQueries ?s1 cfw) = Inr media"
      by (simp add: getTimelineEventQueries_def)
    from resumeEvents_fetch_ok [OF this] pe refreshEvents_start_snd [of env s window]
    have "refreshEvents env s window =
      (Resolved,
       ?s1\<lparr>dataset := fold ingestEventMedia (case media of None \<Rightarrow> [] | Some ms \<Rightarrow> ms) (dataset s),
          eventRanges := ExpiringMemoryRangeSet_add (now_events_resumed env)
             \<lparr>range_start = range_start cfw, range_end = range_end cfw,
              expires = now_events_resumed env + 30000\<rparr>
             (expireOldRanges (now_called env) (eventRanges s))\<rparr>)"
      by (cases "refreshEvents_start env s window")
         (simp add: refreshEvents_def resumeEvents_def)
    with refresh_recordings_fetch_fails [OF pr fails] r
    show "result_recordings r = Rejected e" "result_events r = Resolved"
      "dataset (result_state r)
                = fold ingestEventMedia (case media of None \<Rightarrow> [] | Some ms \<Rightarrow> ms) (dataset s)"
      "eventRanges (result_state r) =
                ExpiringMemoryRangeSet_add (now_events_resumed env)
                  \<lparr>range_start = range_start cfw, range_end = range_end cfw,
                   expires = add_seconds (now_events_resumed env)
                               TIMELINE_FRESHNESS_TOLERANCE_SECONDS\<rparr>
                  (expireOldRanges (now_called env) (eventRanges s))"
      "recordingRanges (result_state r) = recordingRanges s"
      by (simp_all add: add_seconds_def TIMELINE_FRESHNESS_TOLERANCE_SECONDS_def)
  }
qed

theorem refresh_partial_failure_witness:
  "result_events (refresh events_failing_env fresh_source example_window) = Rejected FetchError
   \<and> result_recordings (refresh events_failing_env fresh_source example_window) = Resolved
   \<and> dataset (result_state (refresh events_failing_env fresh_source example_window))
       = [\<lparr>item_id = ''recording-camera-1-1'', item_group = ''camera-1'', item_content = [],
           item_start = test_day 14 0 0 0, item_end = Some (test_day 14 0 20 0),
           item_type = TypeBackground, item_media = None\<rparr>]
   \<and> recordingRanges (result_state (refresh events_failing_env fresh_source example_window))
       = [\<lparr>range_start = test_day 14 0 0 0, range_end = test_day 14 25 59 999\<rparr>]
   \<and> eventRanges (result_state (refresh events_failing_env fresh_source example_window)) = []
   \<and> result_recordings (refresh recordings_failing_env fresh_source example_window)
       = Rejected FetchError
   \<and> result_events (refresh recordings_failing_env fresh_source example_window) = Resolved
   \<and> recordingRanges (result_state (refresh recordings_failing_env fresh_source example_window)) = []
   \<and> dataset (result_state (refresh recordings_failing_env fresh_source example_window))
       = [event_item example_clip ''event-1'' (test_day 14 5 0 0),
          event_item example_snapshot ''event-2'' (test_day 14 7 0 0)]"
proof -
  let ?cfw = "\<lparr>range_start = test_day 14 0 0 0, range_end = test_day 14 25 59 999\<rparr>"
  have now: "now_called events_failing_env = now_called example_env"
    "now_called recordings_failing_env = now_called example_env"
    by (simp_all add: events_failing_env_def recordings_failing_env_def)
  have q1: "result_event_queries (refresh events_failing_env fresh_source example_window) \<noteq> []"
    "result_recording_queries (refresh events_failing_env fresh_source example_window) \<noteq> []"
    by (simp_all add: refresh_event_queries_empty_iff refresh_recording_queries_empty_iff
        tracker_defs fresh_source_def)
  have q2: "result_event_queries (refresh recordings_failing_env fresh_source example_window) \<noteq> []"
    "result_recording_queries (refresh recordings_failing_env fresh_source example_window) \<noteq> []"
    by (simp_all add: refresh_event_queries_empty_iff refresh_recording_queries_empty_iff
        tracker_defs fresh_source_def)
  have a: "executeMediaQuery events_failing_env (getTimelineEventQueries fresh_source ?cfw)
             = Inl FetchError
          \<and> getRecordingSegments events_failing_env (getRecordingSegmentsQueries fresh_source ?cfw)
             = Inr example_segments
          \<and> ingestRecordings (newSegments_of example_segments) (dataset fresh_source)
             = (None, [\<lparr>item_id = ''recording-camera-1-1'', item_group = ''camera-1'',
                   item_content = [], item_start = test_day 14 0 0 0,
                   item_end = Some (test_day 14 0 20 0),
                   item_type = TypeBackground, item_media = None\<rparr>])"
    by (simp add: example_ingestRecordings events_failing_env_def example_env_def fresh_source_def)
  have b: "getRecordingSegments recordings_failing_env (getRecordingSegmentsQueries fresh_source ?cfw)
             = Inl FetchError
          \<and> executeMediaQuery recordings_failing_env (getTimelineEventQueries fresh_source ?cfw)
             = Inr (Some [example_clip, example_malformed, example_snapshot])"
    by (simp add: recordings_failing_env_def example_env_def)
  note first = refresh_partial_failure [OF refl _ q1, of ?cfw, THEN conjunct1, THEN mp, OF _ a]
  note second = refresh_partial_failure [OF refl _ q2, of ?cfw, THEN conjunct2, THEN mp, OF _ b]
  have ev: "ingestEventMedia example_snapshot
        (ingestEventMedia example_malformed (ingestEventMedia example_clip []))
      = [event_item example_clip ''event-1'' (test_day 14 5 0 0),
         event_item example_snapshot ''event-2'' (test_day 14 7 0 0)]"
    by (simp add: ingest_defs event_item_def example_defs)
  have fresh: "dataset fresh_source = []" "recordingRanges fresh_source = []"
    "expireOldRanges (now_called example_env) (eventRanges fresh_source) = []"
    by (simp_all add: fresh_source_def expireOldRanges_def)
  from first second show ?thesis
    by (simp add: now example_cfw ev fresh)
qed

section \<open>Idempotence\<close>

text \<open>
  C4 (as stated): for every window \<open>W\<close>, calling \<^verbatim>\<open>refresh(W)\<close> twice in succession, the
  provider returning no new data, performs no fetch on the second call. The coverage that
  the first call records ends at the minute of its own start, and the events entry expires
  30 seconds after the events leg resumed. With a first call that starts at 14:25:00 and
  whose fetches take 100 seconds, a second call made the moment the first has finished
  (14:26:40) asks for coverage up to 14:26:10, beyond the recorded end 14:25:59.999, and
  both legs fetch again.
\<close>

theorem refresh_twice_slow_fetch_refetches:
  "result_events (refresh slow_env fresh_source example_window) = Resolved
   \<and> result_recordings (refresh slow_env fresh_source example_window) = Resolved
   \<and> now_called after_slow_env = now_events_resumed slow_env
   \<and> result_event_queries
        (refresh after_slow_env (result_state (refresh slow_env fresh_source example_window))
           example_window) \<noteq> []
   \<and> result_recording_queries
        (refresh after_slow_env (result_state (refresh slow_env fresh_source example_window))
           example_window) \<noteq> []"
proof -
  have s: "result_state (refresh slow_env fresh_source example_window) =
    \<lparr>dataset =
       [event_item example_clip ''event-1'' (test_day 14 5 0 0),
        event_item example_snapshot ''event-2'' (test_day 14 7 0 0),
        \<lparr>item_id = ''recording-camera-1-1'', item_group = ''camera-1'', item_content = [],
         item_start = test_day 14 0 0 0, item_end = Some (test_day 14 0 20 0),
         item_type = TypeBackground, item_media = None\<rparr>],
     recordingRanges = [\<lparr>range_start = test_day 14 0 0 0, range_end = test_day 14 25 59 999\<rparr>],
     eventRanges = [\<lparr>range_start = test_day 14 0 0 0, range_end = test_day 14 25 59 999,
                    expires = test_day 14 27 10 0\<rparr>],
     cameraIDs = [''camera-1'', ''camera-2''], mediaType = MediaAll\<rparr>"
    by (simp add: refresh_defs clock_defs tracker_defs ingest_defs example_defs event_item_def Let_def)
  have o: "result_events (refresh slow_env fresh_source example_window) = Resolved"
    "result_recordings (refresh slow_env fresh_source example_window) = Resolved"
    by (simp_all add: refresh_defs clock_defs tracker_defs ingest_defs example_defs Let_def)
  have q: "result_event_queries
        (refresh after_slow_env (result_state (refresh slow_env fresh_source example_window))
           example_window) \<noteq> []"
    "result_recording_queries
        (refresh after_slow_env (result_state (refresh slow_env fresh_source example_window))
           example_window) \<noteq> []"
    unfolding s
    by (simp_all add: refresh_event_queries_empty_iff refresh_recording_queries_empty_iff
        tracker_defs clock_defs example_defs)
  from o q show ?thesis
    by (simp add: after_slow_env_def slow_env_def)
qed

text \<open>
  C4 (amended): for every window \<open>W\<close>, when a first \<^verbatim>\<open>refresh(W)\<close> has resolved both of its
  legs and a second \<^verbatim>\<open>refresh(W)\<close> starts less than the freshness tolerance of 30 seconds
  after the first one started (with the clock unchanged, or with both legs of the first call
  having fetched), the second call sends no query to the provider and leaves the item
  collection identical to its state after the first call.
\<close>

theorem refresh_twice_no_fetch:
  assumes r1: "r1 = refresh env1 s window"
    and r2: "r2 = refresh env2 (result_state r1) window"
    and ok: "result_events r1 = Resolved" "result_recordings r1 = Resolved"
    and t1: "now_called env1 \<le> now_events_resumed env1"
    and t2: "now_called env1 \<le> now_called env2"
      "now_called env2 < add_seconds (now_called env1) TIMELINE_FRESHNESS_TOLERANCE_SECONDS"
    and fetched: "now_called env2 = now_called env1
        \<or> (result_event_queries r1 \<noteq> [] \<and> result_recording_queries r1 \<noteq> [])"
  shows "result_event_queries r2 = [] \<and> result_recording_queries r2 = []
       \<and> dataset (result_state r2) = dataset (result_state r1)"
proof -
  let ?cfw = "convertRangeToCacheFriendlyTimes (now_called env1) window True"
  let ?q2 = "\<lparr>range_start = range_start window,
               range_end = capEndDate (now_called env2) (range_end window) - 30000\<rparr>"
  from t2 have t2': "now_called env2 < now_called env1 + 30000"
    by (simp add: add_seconds_def TIMELINE_FRESHNESS_TOLERANCE_SECONDS_def)
  have cov: "range_covers ?cfw ?q2"
    by (rule quantized_covers_later_check [OF t2(1) t2'])
  have e: "result_event_queries r2 = []"
  proof (cases "result_event_queries r1 = []")
    case True
    with fetched have same: "now_called env2 = now_called env1" by blast
    from True r1 have "fst (ExpiringMemoryRangeSet_hasCoverage (now_called env1) (eventRanges s) ?q2)"
      by (simp add: refresh_event_queries_empty_iff same)
    moreover from True r1 have "eventRanges (result_state r1)
        = expireOldRanges (now_called env1) (eventRanges s)"
      by (simp add: refresh_eventRanges_skipped)
    ultimately show ?thesis
      by (simp add: r2 refresh_event_queries_empty_iff same ExpiringMemoryRangeSet_hasCoverage_def
          expireOldRanges_idem)
  next
    case False
    let ?e = "\<lparr>range_start = range_start ?cfw, range_end = range_end ?cfw,
                 expires = now_events_resumed env1 + 30000\<rparr>"
    from False ok(1) r1 have "eventRanges (result_state r1) =
        ExpiringMemoryRangeSet_add (now_events_resumed env1) ?e
          (expireOldRanges (now_called env1) (eventRanges s))"
      by (simp add: refresh_eventRanges_fetched)
    moreover have "range_covers ?e ?q2"
      using cov by (simp add: range_covers_def)
    moreover have "now_called env2 < expires ?e"
      using t1 t2' by simp
    ultimately show ?thesis
      by (simp add: r2 refresh_event_queries_empty_iff ExpiringMemoryRangeSet_add_covers)
  qed
  have r: "result_recording_queries r2 = []"
  proof (cases "result_recording_queries r1 = []")
    case True
    with fetched have same: "now_called env2 = now_called env1" by blast
    from True r1 have "MemoryRangeSet_hasCoverage (recordingRanges s) ?q2"
      by (simp add: refresh_recording_queries_empty_iff same)
    moreover from True r1 have "recordingRanges (result_state r1) = recordingRanges s"
      by (simp add: refresh_recordingRanges_skipped)
    ultimately show ?thesis
      by (simp add: r2 refresh_recording_queries_empty_iff)
  next
    case False
    with ok(2) r1 have "recordingRanges (result_state r1)
        = MemoryRangeSet_add ?cfw (recordingRanges s)"
      by (simp add: refresh_recordingRanges_fetched)
    with cov show ?thesis
      by (simp add: r2 refresh_recording_queries_empty_iff MemoryRangeSet_add_covers)
  qed
  from e r r2 have "dataset (result_state r2) = dataset (result_state r1)"
    by (simp add: refresh_both_skipped)
  with e r show ?thesis by simp
qed

theorem refresh_twice_no_fetch_witness:
  "result_event_queries
     (refresh soon_after_env (result_state (refresh example_env fresh_source example_window))
        example_window) = []
   \<and> result_recording_queries
     (refresh soon_after_env (result_state (refresh example_env fresh_source example_window))
        example_window) = []
   \<and> dataset (result_state
       (refresh soon_after_env (result_state (refresh example_env fresh_source example_window))
          example_window))
     = dataset (result_state (refresh example_env fresh_source example_window))"
proof -
  have t: "now_called example_env \<le> now_events_resumed example_env"
    "now_called example_env \<le> now_called soon_after_env"
    "now_called soon_after_env
       < add_seconds (now_called example_env) TIMELINE_FRESHNESS_TOLERANCE_SECONDS"
    by (simp_all add: example_env_def soon_after_env_def clock_defs)
  have f: "now_called soon_after_env = now_called example_env
        \<or> (result_event_queries (refresh example_env fresh_source example_window) \<noteq> []
           \<and> result_recording_queries (refresh example_env fresh_source example_window) \<noteq> [])"
    using example_refresh_outcome by simp
  from refresh_twice_no_fetch [OF refl refl example_refresh_outcome(1,2) t f]
  show ?thesis .
qed

section \<open>The end cap of the quantizer\<close>




section \<open>Ingestion\<close>

text \<open>
  C6: for every list of media records that the events fetch returns, a record with a
  usable id and start time is upserted as an item of kind range when it has an end time
  and of kind point otherwise (the item found under its id after the loop, when no later
  usable record carries the same id, has that kind and the record's start, camera and
  payload); the records without a usable id or start time are left out, the loop giving
  the same collection as on the usable records alone; and the leg resolves whatever the
  records are.
\<close>

theorem events_ingested_by_kind:
  "(\<forall>before media after k t.
      ms = before @ media # after \<and> media_id media = Some k \<and> k \<noteq> []
      \<and> media_startTime media = Some t
      \<and> (\<forall>m\<in>set after. has_usable_id_and_start m \<longrightarrow> media_id m \<noteq> Some k)
      \<longrightarrow> (\<exists>item. DataSet_lookup k (fold ingestEventMedia ms ds) = Some item
             \<and> item_type item
                 = (case media_endTime media of Some e \<Rightarrow> TypeRange | None \<Rightarrow> TypePoint)
             \<and> item_start item = t \<and> item_group item = media_cameraID media
             \<and> item_media item = Some media))
   \<and> fold ingestEventMedia ms ds = fold ingestEventMedia (filter has_usable_id_and_start ms) ds
   \<and> (executeMediaQuery env (getTimelineEventQueries s cfw) = Inr (Some ms) \<longrightarrow>
        fst (refreshEvents_resume env cfw s) = Resolved
        \<and> dataset (snd (refreshEvents_resume env cfw s)) = fold ingestEventMedia ms (dataset s))"
proof (intro conjI allI impI)
  fix before media after k t
  assume a: "ms = before @ media # after \<and> media_id media = Some k \<and> k \<noteq> []
      \<and> media_startTime media = Some t
      \<and> (\<forall>m\<in>set after. has_usable_id_and_start m \<longrightarrow> media_id m \<noteq> Some k)"
  then have "DataSet_lookup k (fold ingestEventMedia ms ds)
      = DataSet_lookup k (ingestEventMedia media (fold ingestEventMedia before ds))"
    by (simp add: fold_ingest_lookup_other)
  with a ingestEventMedia_lookup_same [of media k t "fold ingestEventMedia before ds"]
  show "\<exists>item. DataSet_lookup k (fold ingestEventMedia ms ds) = Some item
             \<and> item_type item
                 = (case media_endTime media of Some e \<Rightarrow> TypeRange | None \<Rightarrow> TypePoint)
             \<and> item_start item = t \<and> item_group item = media_cameraID media
             \<and> item_media item = Some media"
    by simp
next
  show "fold ingestEventMedia ms ds = fold ingestEventMedia (filter has_usable_id_and_start ms) ds"
    by (simp add: fold_ingest_filter)
next
  assume "executeMediaQuery env (getTimelineEventQueries s cfw) = Inr (Some ms)"
  then show "fst (refreshEvents_resume env cfw s) = Resolved"
    and "dataset (snd (refreshEvents_resume env cfw s)) = fold ingestEventMedia ms (dataset s)"
    by (simp_all add: refreshEvents_resume_def)
qed

theorem events_ingested_by_kind_witness:
  "(\<exists>item. DataSet_lookup ''event-1''
        (fold ingestEventMedia [example_clip, example_malformed, example_snapshot] []) = Some item
      \<and> item_type item = TypeRange \<and> item_media item = Some example_clip)
   \<and> (\<exists>item. DataSet_lookup ''event-2''
        (fold ingestEventMedia [example_clip, example_malformed, example_snapshot] []) = Some item
      \<and> item_type item = TypePoint \<and> item_media item = Some example_snapshot)
   \<and> fold ingestEventMedia [example_clip, example_malformed, example_snapshot] []
      = fold ingestEventMedia [example_clip, example_snapshot] []
   \<and> fst (refreshEvents_resume example_env example_cache_friendly_window fresh_source) = Resolved"
proof -
  note t = events_ingested_by_kind
    [of "[example_clip, example_malformed, example_snapshot]" "[]"
        example_env fresh_source example_cache_friendly_window]
  have a: "[example_clip, example_malformed, example_snapshot]
        = [] @ example_clip # [example_malformed, example_snapshot]
      \<and> media_id example_clip = Some ''event-1'' \<and> ''event-1'' \<noteq> []
      \<and> media_startTime example_clip = Some (test_day 14 5 0 0)
      \<and> (\<forall>m\<in>set [example_malformed, example_snapshot].
            has_usable_id_and_start m \<longrightarrow> media_id m \<noteq> Some ''event-1'')"
    by (simp add: example_defs has_usable_id_and_start_def)
  have b: "[example_clip, example_malformed, example_snapshot]
        = [example_clip, example_malformed] @ example_snapshot # []
      \<and> media_id example_snapshot = Some ''event-2'' \<and> ''event-2'' \<noteq> []
      \<and> media_startTime example_snapshot = Some (test_day 14 7 0 0)
      \<and> (\<forall>m\<in>set []. has_usable_id_and_start m \<longrightarrow> media_id m \<noteq> Some ''event-2'')"
    by (simp add: example_defs)
  have c: "executeMediaQuery example_env (getTimelineEventQueries fresh_source example_cache_friendly_window)
      = Inr (Some [example_clip, example_malformed, example_snapshot])"
    by (simp add: example_env_def)
  have f: "filter has_usable_id_and_start [example_clip, example_malformed, example_snapshot]
      = [example_clip, example_snapshot]"
    by (simp add: example_defs has_usable_id_and_start_def)
  have e: "media_endTime example_clip = Some (test_day 14 6 0 0)"
    "media_endTime example_snapshot = None"
    by (simp_all add: example_defs)
  from t [THEN conjunct1, rule_format, OF a] e
  have 1: "\<exists>item. DataSet_lookup ''event-1''
        (fold ingestEventMedia [example_clip, example_malformed, example_snapshot] []) = Some item
      \<and> item_type item = TypeRange \<and> item_media item = Some example_clip"
    by auto
  from t [THEN conjunct1, rule_format, OF b] e
  have 2: "\<exists>item. DataSet_lookup ''event-2''
        (fold ingestEventMedia [example_clip, example_malformed, example_snapshot] []) = Some item
      \<and> item_type item = TypePoint \<and> item_media item = Some example_snapshot"
    by auto
  from t [THEN conjunct2, THEN conjunct1]
  have 3: "fold ingestEventMedia [example_clip, example_malformed, example_snapshot] []
      = fold ingestEventMedia [example_clip, example_snapshot] []"
    unfolding f .
  from t [THEN conjunct2, THEN conjunct2, THEN mp, OF c]
  have 4: "fst (refreshEvents_resume example_env example_cache_friendly_window fresh_source) = Resolved"
    by simp
  from 1 2 3 4 show ?thesis by blast
qed

text \<open>
  C7: for every camera present in the result of a recordings fetch whose leg resolves, the
  camera's background items after the leg are exactly the compression of its existing
  background items (those the code reads back: with an end) followed by the newly converted
  segments of that camera. The collection holds at most one item per id, as a DataSet does.
\<close>

theorem recordings_replaced_by_compressed:
  assumes "distinct (map item_id (dataset s))"
    and "getRecordingSegments env (getRecordingSegmentsQueries s cfw) = Inr results"
    and "fst (refreshRecordings_resume env cfw s) = Resolved"
    and "c \<in> fst ` set results"
  shows "DataSet_get (\<lambda>item. item_type item = TypeBackground \<and> item_group item = c)
           (dataset (snd (refreshRecordings_resume env cfw s)))
         = map of_with_end
             (compressRanges
                (getExistingRecordingsForCameraID (dataset s) c
                   @ map (convertSegmentToRecording c) (segments_for c results))
                TIMELINE_RECORDING_SEGMENT_CONSECUTIVE_TOLERANCE_SECONDS)"
proof -
  obtain e ds where ing: "ingestRecordings (newSegments_of results) (dataset s) = (e, ds)"
    by (cases "ingestRecordings (newSegments_of results) (dataset s)")
  with assms(2,3) have e: "e = None"
    by (cases e) (simp_all add: refreshRecordings_resume_def)
  with ing assms(2) have ds: "dataset (snd (refreshRecordings_resume env cfw s)) = ds"
    by (simp add: refreshRecordings_resume_def)
  from ing e have ok: "fst (ingestRecordings (newSegments_of results) (dataset s)) = None"
    by simp
  from ingestRecordings_same [OF assms(1) newSegments_of_distinct
      newSegments_of_entry [OF assms(4)] ok] ing ds
  show ?thesis
    by (simp add: recordings_of_def compressed_for_def)
qed

theorem recordings_replaced_by_compressed_witness:
  "DataSet_get (\<lambda>item. item_type item = TypeBackground \<and> item_group item = ''camera-1'')
     (dataset (snd (refreshRecordings_resume example_env example_cache_friendly_window source_with_recordings)))
   = [\<lparr>item_id = ''recording-camera-1-0'', item_group = ''camera-1'', item_content = [],
       item_start = test_day 13 59 30 0, item_end = Some (test_day 14 0 20 0),
       item_type = TypeBackground, item_media = None\<rparr>]"
proof -
  have d: "distinct (map item_id (dataset source_with_recordings))"
    by (simp add: source_with_recordings_def fresh_source_def)
  have g: "getRecordingSegments example_env
      (getRecordingSegmentsQueries source_with_recordings example_cache_friendly_window) = Inr example_segments"
    by (simp add: example_env_def)
  have r: "fst (refreshRecordings_resume example_env example_cache_friendly_window source_with_recordings)
      = Resolved"
    by (simp add: source_with_recordings_resume)
  have c: "''camera-1'' \<in> fst ` set example_segments"
    by (simp add: example_segments_def)
  have v: "map of_with_end
             (compressRanges
                (getExistingRecordingsForCameraID (dataset source_with_recordings) ''camera-1''
                   @ map (convertSegmentToRecording ''camera-1'')
                       (segments_for ''camera-1'' example_segments))
                TIMELINE_RECORDING_SEGMENT_CONSECUTIVE_TOLERANCE_SECONDS)
      = [\<lparr>item_id = ''recording-camera-1-0'', item_group = ''camera-1'', item_content = [],
          item_start = test_day 13 59 30 0, item_end = Some (test_day 14 0 20 0),
          item_type = TypeBackground, item_media = None\<rparr>]"
    by (simp add: ingest_defs segments_for_def example_defs test_day_def)
  from recordings_replaced_by_compressed [OF d g r c] show ?thesis
    unfolding v .
qed

section \<open>Recorded coverage\<close>

text \<open>
  C8: after every leg that fetched and resolved, the cache friendly window (the quantized
  window, not the requested one) is added to the leg's tracker: to the events tracker with
  the expiry now plus the freshness tolerance, now being the clock when the leg resumed,
  and to the recordings tracker without expiry.
\<close>

theorem refresh_records_quantized_window:
  assumes r: "r = refresh env s window"
    and cfw: "cfw = convertRangeToCacheFriendlyTimes (now_called env) window True"
  shows "(result_event_queries r \<noteq> [] \<and> result_events r = Resolved \<longrightarrow>
            eventRanges (result_state r) =
              ExpiringMemoryRangeSet_add (now_events_resumed env)
                \<lparr>range_start = range_start cfw, range_end = range_end cfw,
                 expires = add_seconds (now_events_resumed env)
                             TIMELINE_FRESHNESS_TOLERANCE_SECONDS\<rparr>
                (expireOldRanges (now_called env) (eventRanges s)))
       \<and> (result_recording_queries r \<noteq> [] \<and> result_recordings r = Resolved \<longrightarrow>
            recordingRanges (result_state r) = MemoryRangeSet_add cfw (recordingRanges s))"
  using refresh_eventRanges_fetched [of env s window cfw]
    refresh_recordingRanges_fetched [of env s window cfw] r cfw
  by (simp add: add_seconds_def TIMELINE_FRESHNESS_TOLERANCE_SECONDS_def)

theorem refresh_records_quantized_window_witness:
  "eventRanges (result_state (refresh example_env fresh_source example_window))
     = [\<lparr>range_start = test_day 14 0 0 0, range_end = test_day 14 25 59 999,
         expires = test_day 14 25 32 0\<rparr>]
   \<and> recordingRanges (result_state (refresh example_env fresh_source example_window))
     = [\<lparr>range_start = test_day 14 0 0 0, range_end = test_day 14 25 59 999\<rparr>]"
proof -
  have cfw: "convertRangeToCacheFriendlyTimes (now_called example_env) example_window True
      = \<lparr>range_start = test_day 14 0 0 0, range_end = test_day 14 25 59 999\<rparr>"
    by (simp add: clock_defs example_defs Let_def)
  from refresh_records_quantized_window [OF refl refl, of example_env fresh_source example_window]
    example_refresh_outcome
  have "eventRanges (result_state (refresh example_env fresh_source example_window)) =
              ExpiringMemoryRangeSet_add (now_events_resumed example_env)
                \<lparr>range_start = test_day 14 0 0 0, range_end = test_day 14 25 59 999,
                 expires = add_seconds (now_events_resumed example_env)
                             TIMELINE_FRESHNESS_TOLERANCE_SECONDS\<rparr>
                (expireOldRanges (now_called example_env) (eventRanges fresh_source))"
    and "recordingRanges (result_state (refresh example_env fresh_source example_window))
       = MemoryRangeSet_add \<lparr>range_start = test_day 14 0 0 0, range_end = test_day 14 25 59 999\<rparr>
           (recordingRanges fresh_source)"
    by (simp_all add: cfw)
  then show ?thesis
    by (simp add: tracker_defs clock_defs example_defs)
qed

section \<open>Sorting media\<close>

text \<open>
  C9: for every list of media records, the result of \<^verbatim>\<open>sortMedia\<close> is a list of records of
  the input (the input itself is a value and is not changed), ordered by start time
  ascending, the records without a start time after all records with one and among
  themselves by id ascending; no two records of the result are duplicates, every record of
  the input has a duplicate in the result, and each record of the result is the first
  among its duplicates in the sorted input.
\<close>

theorem sortMedia_sorted_and_collapsed:
  "sorted_wrt media_before_or_equal (sortMedia ms)
   \<and> sorted_wrt (\<lambda>a b. \<not> is_duplicate a b) (sortMedia ms)
   \<and> set (sortMedia ms) \<subseteq> set ms
   \<and> (\<forall>m\<in>set ms. \<exists>kept\<in>set (sortMedia ms). is_duplicate kept m)
   \<and> (\<forall>kept\<in>set (sortMedia ms).
        find (is_duplicate kept) (sort_key media_sort_key ms) = Some kept)"
proof (intro conjI ballI)
  show "sorted_wrt media_before_or_equal (sortMedia ms)"
    unfolding sortMedia_def by (rule collapse_duplicates_sorted_wrt [OF sort_key_media_sorted])
  show "sorted_wrt (\<lambda>a b. \<not> is_duplicate a b) (sortMedia ms)"
    unfolding sortMedia_def by (rule collapse_duplicates_no_duplicates)
  show "set (sortMedia ms) \<subseteq> set ms"
    using collapse_duplicates_subset [of "sort_key media_sort_key ms"]
    by (simp add: sortMedia_def)
next
  fix m assume "m \<in> set ms"
  then have "m \<in> set (sort_key media_sort_key ms)" by simp
  then show "\<exists>kept\<in>set (sortMedia ms). is_duplicate kept m"
    unfolding sortMedia_def by (rule collapse_duplicates_represents)
next
  fix kept assume "kept \<in> set (sortMedia ms)"
  then show "find (is_duplicate kept) (sort_key media_sort_key ms) = Some kept"
    unfolding sortMedia_def by (rule collapse_duplicates_first)
qed

theorem sortMedia_sorted_and_collapsed_witness:
  "sorted_wrt media_before_or_equal [media_1, media_2, media_4_no_id]
   \<and> sorted_wrt (\<lambda>a b. \<not> is_duplicate a b) [media_1, media_2, media_4_no_id]
   \<and> (\<exists>kept\<in>set [media_1, media_2, media_4_no_id]. is_duplicate kept media_3_dup_id)
   \<and> find (is_duplicate media_2)
        (sort_key media_sort_key
           [media_4_no_id, media_3_dup_id, media_2, media_1, media_4_no_id]) = Some media_2"
proof -
  have v: "sortMedia [media_4_no_id, media_3_dup_id, media_2, media_1, media_4_no_id]
      = [media_1, media_2, media_4_no_id]"
    by (simp add: sortMedia_def media_sort_key_def is_duplicate_def media_1_def media_2_def
        media_3_dup_id_def media_4_no_id_def test_day_def)
  note t = sortMedia_sorted_and_collapsed
    [of "[media_4_no_id, media_3_dup_id, media_2, media_1, media_4_no_id]", unfolded v]
  from t have "\<exists>kept\<in>set [media_1, media_2, media_4_no_id]. is_duplicate kept media_3_dup_id"
    by simp
  moreover from t have "find (is_duplicate media_2)
        (sort_key media_sort_key
           [media_4_no_id, media_3_dup_id, media_2, media_1, media_4_no_id]) = Some media_2"
    by simp
  ultimately show ?thesis using t by blast
qed

section \<open>Cameras absent from a recordings result\<close>

text \<open>
  C10 (as stated): during every recordings ingestion, a camera for which the fetch result
  contains no segments is left completely untouched: its background items are neither
  deleted nor replaced. The first loop of the ingestion creates an entry of the segment map
  for the camera of every result, also of a result with an empty segment list, and the
  second loop deletes and inserts for every entry. With a result that lists camera-2 with
  no segments, the loop calls \<^verbatim>\<open>remove\<close> with the item of camera-2 and then \<^verbatim>\<open>add\<close> with its
  compression: the item is deleted and inserted again, and now stands after the item of
  camera-1.
\<close>

theorem empty_segment_list_reinserted:
  "segments_for ''camera-2'' [(''camera-2'', [])] = []
   \<and> refreshRecordings_resume_calls empty_result_env example_cache_friendly_window
         source_with_recordings
       = [RemoveCall
            [\<lparr>item_id = ''recording-camera-2-7'', item_group = ''camera-2'', item_content = [],
              item_start = test_day 13 0 0 0, item_end = Some (test_day 13 5 0 0),
              item_type = TypeBackground, item_media = None\<rparr>],
          AddCall
            [\<lparr>item_id = ''recording-camera-2-7'', item_group = ''camera-2'', item_content = [],
              item_start = test_day 13 0 0 0, item_end = Some (test_day 13 5 0 0),
              item_type = TypeBackground, item_media = None\<rparr>]]
   \<and> deleteRecordingsForCameraID ''camera-2'' (dataset source_with_recordings)
       = [\<lparr>item_id = ''recording-camera-1-0'', item_group = ''camera-1'', item_content = [],
           item_start = test_day 13 59 30 0, item_end = Some (test_day 14 0 0 0),
           item_type = TypeBackground, item_media = None\<rparr>]
   \<and> dataset (snd (refreshRecordings_resume empty_result_env example_cache_friendly_window
                     source_with_recordings))
       = [\<lparr>item_id = ''recording-camera-1-0'', item_group = ''camera-1'', item_content = [],
           item_start = test_day 13 59 30 0, item_end = Some (test_day 14 0 0 0),
           item_type = TypeBackground, item_media = None\<rparr>,
          \<lparr>item_id = ''recording-camera-2-7'', item_group = ''camera-2'', item_content = [],
           item_start = test_day 13 0 0 0, item_end = Some (test_day 13 5 0 0),
           item_type = TypeBackground, item_media = None\<rparr>]
   \<and> dataset (snd (refreshRecordings_resume empty_result_env example_cache_friendly_window
                     source_with_recordings))
       \<noteq> dataset source_with_recordings"
  by (simp add: segments_for_def refreshRecordings_resume_def refreshRecordings_resume_calls_def
      ingestCameraRecordings_calls_def getRecordingSegmentsQueries_def
      ingest_defs example_defs test_day_def Let_def)

text \<open>
  C10 (amended): during every recordings ingestion, a camera that does not appear in the
  returned segment map (the fetch result has no entry for it; an entry with an empty
  segment list is an entry) is left untouched, whether or not the leg resolves: no
  \<^verbatim>\<open>remove\<close> and no \<^verbatim>\<open>add\<close> call of the loop carries an item of that camera, no \<^verbatim>\<open>remove\<close>
  call carries the id of one of its background items, and its background items after the
  leg are the ones before it; the collection after the leg is the result of these calls
  and no others. The collection holds at most one item per id, as a DataSet does.
\<close>

theorem absent_camera_untouched:
  assumes "distinct (map item_id (dataset s))"
    and "getRecordingSegments env (getRecordingSegmentsQueries s cfw) = Inr results"
    and "c \<notin> fst ` set results"
  shows "DataSet_get (\<lambda>item. item_type item = TypeBackground \<and> item_group item = c)
           (dataset (snd (refreshRecordings_resume env cfw s)))
         = DataSet_get (\<lambda>item. item_type item = TypeBackground \<and> item_group item = c)
           (dataset s)
       \<and> (\<forall>call\<in>set (refreshRecordings_resume_calls env cfw s).
             (\<forall>item\<in>set (call_items call). item_group item \<noteq> c)
             \<and> (\<forall>item\<in>set (removed_items call).
                   \<forall>kept\<in>set (DataSet_get
                       (\<lambda>item. item_type item = TypeBackground \<and> item_group item = c)
                       (dataset s)).
                     item_id item \<noteq> item_id kept))
       \<and> dataset (snd (refreshRecordings_resume env cfw s))
           = snd (replay_calls (refreshRecordings_resume_calls env cfw s) (dataset s))"
proof (intro conjI ballI)
  from assms(3) have notin: "c \<notin> fst ` set (newSegments_of results)"
    by (simp add: newSegments_of_keys)
  have ds: "dataset (snd (refreshRecordings_resume env cfw s))
      = snd (ingestRecordings (newSegments_of results) (dataset s))"
    using assms(2)
    by (simp add: refreshRecordings_resume_def split: prod.splits option.splits)
  have calls: "refreshRecordings_resume_calls env cfw s
      = ingestRecordings_calls (newSegments_of results) (dataset s)"
    using assms(2) by (simp add: refreshRecordings_resume_calls_def)
  from ds ingestRecordings_other [OF assms(1) notin]
  show "DataSet_get (\<lambda>item. item_type item = TypeBackground \<and> item_group item = c)
           (dataset (snd (refreshRecordings_resume env cfw s)))
         = DataSet_get (\<lambda>item. item_type item = TypeBackground \<and> item_group item = c)
           (dataset s)"
    by (simp add: recordings_of_def)
  from ds calls
  show "dataset (snd (refreshRecordings_resume env cfw s))
           = snd (replay_calls (refreshRecordings_resume_calls env cfw s) (dataset s))"
    by (simp add: replay_ingestRecordings_calls)
  {
    fix call item
    assume "call \<in> set (refreshRecordings_resume_calls env cfw s)"
      and "item \<in> set (call_items call)"
    with calls ingestRecordings_calls_group [of call "newSegments_of results" "dataset s" item] notin
    show "item_group item \<noteq> c" by auto
  }
  {
    fix call item kept
    assume "call \<in> set (refreshRecordings_resume_calls env cfw s)"
      and "item \<in> set (removed_items call)"
      and "kept \<in> set (DataSet_get
                       (\<lambda>item. item_type item = TypeBackground \<and> item_group item = c)
                       (dataset s))"
    with calls ingestRecordings_calls_removed [OF assms(1) notin, of call item kept]
    show "item_id item \<noteq> item_id kept" by (simp add: recordings_of_def)
  }
qed

theorem absent_camera_untouched_witness:
  "DataSet_get (\<lambda>item. item_type item = TypeBackground \<and> item_group item = ''camera-2'')
     (dataset (snd (refreshRecordings_resume example_env example_cache_friendly_window
                      source_with_recordings)))
   = [\<lparr>item_id = ''recording-camera-2-7'', item_group = ''camera-2'', item_content = [],
       item_start = test_day 13 0 0 0, item_end = Some (test_day 13 5 0 0),
       item_type = TypeBackground, item_media = None\<rparr>]
   \<and> refreshRecordings_resume_calls example_env example_cache_friendly_window
         source_with_recordings \<noteq> []
   \<and> \<not> list_ex (\<lambda>call. list_ex (\<lambda>item. item_group item = ''camera-2'') (call_items call))
         (refreshRecordings_resume_calls example_env example_cache_friendly_window
            source_with_recordings)
   \<and> \<not> list_ex (\<lambda>call. list_ex (\<lambda>item. item_id item = ''recording-camera-2-7'')
                           (removed_items call))
         (refreshRecordings_resume_calls example_env example_cache_friendly_window
            source_with_recordings)"
proof -
  have d: "distinct (map item_id (dataset source_with_recordings))"
    by (simp add: source_with_recordings_def fresh_source_def)
  have g: "getRecordingSegments example_env
      (getRecordingSegmentsQueries source_with_recordings example_cache_friendly_window)
        = Inr example_segments"
    by (simp add: example_env_def)
  have c: "''camera-2'' \<notin> fst ` set example_segments"
    by (simp add: example_segments_def)
  have v: "DataSet_get (\<lambda>item. item_type item = TypeBackground \<and> item_group item = ''camera-2'')
        (dataset source_with_recordings)
      = [\<lparr>item_id = ''recording-camera-2-7'', item_group = ''camera-2'', item_content = [],
          item_start = test_day 13 0 0 0, item_end = Some (test_day 13 5 0 0),
          item_type = TypeBackground, item_media = None\<rparr>]"
    by (simp add: DataSet_get_def source_with_recordings_def fresh_source_def)
  have n: "refreshRecordings_resume_calls example_env example_cache_friendly_window
         source_with_recordings \<noteq> []"
    by (simp add: refreshRecordings_resume_calls_def example_env_def example_segments_def
        newSegments_of_def ingestCameraRecordings_calls_def Let_def)
  note t = absent_camera_untouched [OF d g c, unfolded v]
  from t have 1: "DataSet_get (\<lambda>item. item_type item = TypeBackground \<and> item_group item = ''camera-2'')
     (dataset (snd (refreshRecordings_resume example_env example_cache_friendly_window
                      source_with_recordings)))
   = [\<lparr>item_id = ''recording-camera-2-7'', item_group = ''camera-2'', item_content = [],
       item_start = test_day 13 0 0 0, item_end = Some (test_day 13 5 0 0),
       item_type = TypeBackground, item_media = None\<rparr>]"
    by (rule conjunct1)
  from t have 2: "\<forall>call\<in>set (refreshRecordings_resume_calls example_env
        example_cache_friendly_window source_with_recordings).
      (\<forall>item\<in>set (call_items call). item_group item \<noteq> ''camera-2'')
      \<and> (\<forall>item\<in>set (removed_items call). item_id item \<noteq> ''recording-camera-2-7'')"
    by simp
  from 1 2 n show ?thesis
    by (simp add: list_ex_iff)
qed

end
